theory Spec2Isabelle
  imports Complex_Main "HOL-Library.Sublist"
begin

section \<open>Python values\<close>

text \<open>
  A Python \<^verbatim>\<open>str\<close> is a sequence of Unicode code points, so it is modelled as a list of
  natural numbers (the code points); \<open>py\<close> embeds an ASCII literal. Python's unbounded
  \<^verbatim>\<open>int\<close> is \<open>int\<close>. A Python \<^verbatim>\<open>float\<close> is idealised as a real number: the
  properties below compare and order progress values and never depend on rounding.
\<close>

type_synonym pystr = "nat list"

definition py :: "string \<Rightarrow> pystr" where
  "py s = map of_char s"

text \<open>\<^verbatim>\<open>str(n)\<close> and \<^verbatim>\<open>f"{n}"\<close> for an integer: its decimal digits, with a minus sign.\<close>

fun str_nat :: "nat \<Rightarrow> pystr" where
  "str_nat n = (if n < 10 then [48 + n] else str_nat (n div 10) @ [48 + n mod 10])"

declare str_nat.simps [simp del]

definition str_int :: "int \<Rightarrow> pystr" where
  "str_int i = (if i < 0 then 45 # str_nat (nat (- i)) else str_nat (nat i))"

text \<open>\<^verbatim>\<open>sub in s\<close> for strings.\<close>

fun py_in :: "pystr \<Rightarrow> pystr \<Rightarrow> bool" where
  "py_in sub [] = (sub = [])"
| "py_in sub (c # cs) = (prefix sub (c # cs) \<or> py_in sub cs)"

text \<open>
  A call that may raise: \<open>Raises e\<close> carries the text \<^verbatim>\<open>str(e)\<close> of the exception.
\<close>

datatype 'a outcome = Raises pystr | Returns 'a

section \<open>models.py\<close>

datatype TaskStatus = PENDING | PROCESSING | COMPLETED | FAILED

record VideoInfo =
  vi_id :: pystr
  vi_title :: pystr
  vi_duration :: int
  vi_thumbnail :: pystr
  vi_selected :: bool

text \<open>
  \<open>dr_url\<close> is \<^verbatim>\<open>str(request.url)\<close>, the only form in which the handlers read the URL.
\<close>

record DownloadRequest =
  dr_url :: pystr
  dr_is_playlist :: bool

record PlaylistRequest =
  pr_url :: pystr
  pr_video_ids :: "pystr list"

record TaskResponse =
  r_task_id :: pystr
  r_status :: TaskStatus
  r_message :: pystr
  r_progress :: real
  r_total_videos :: int
  r_completed_videos :: int

record VideoInfoResponse =
  vr_is_playlist :: bool
  vr_videos :: "VideoInfo list"
  vr_playlist_title :: "pystr option"

section \<open>services/task\_manager.py\<close>

text \<open>
  One entry of \<^verbatim>\<open>TaskManager.tasks\<close>: the dictionary with the six keys that
  \<^verbatim>\<open>create_task\<close> writes. The registry is the dictionary from task ids to entries. Every
  method runs under the one lock, so each is one atomic step on the registry.
\<close>

record task =
  t_status :: TaskStatus
  t_progress :: real
  t_message :: pystr
  t_total_videos :: int
  t_completed_videos :: int
  t_file_paths :: "pystr list"

type_synonym registry = "pystr \<rightharpoonup> task"

text \<open>
  \<^verbatim>\<open>create_task\<close>: the id that \<^verbatim>\<open>str(uuid.uuid4())\<close> returned is the parameter
  \<open>task_id\<close>.
\<close>

definition create_task :: "registry \<Rightarrow> pystr \<Rightarrow> int \<Rightarrow> pystr \<times> registry" where
  "create_task tasks task_id total_videos =
     (task_id,
      tasks(task_id \<mapsto>
        \<lparr>t_status = PENDING, t_progress = 0, t_message = py ''Task created'',
         t_total_videos = total_videos, t_completed_videos = 0, t_file_paths = []\<rparr>))"

text \<open>
  The keyword arguments of \<^verbatim>\<open>update_task\<close>, \<open>None\<close> for the default \<^verbatim>\<open>None\<close>.
\<close>

record update_args =
  u_status :: "TaskStatus option"
  u_progress :: "real option"
  u_message :: "pystr option"
  u_completed_videos :: "int option"
  u_file_path :: "pystr option"

definition no_args :: update_args where
  "no_args = \<lparr>u_status = None, u_progress = None, u_message = None,
              u_completed_videos = None, u_file_path = None\<rparr>"

text \<open>
  \<^verbatim>\<open>update_task\<close>. The source tests \<^verbatim>\<open>progress\<close> and \<^verbatim>\<open>completed_videos\<close> with
  \<^verbatim>\<open>is not None\<close>, and \<^verbatim>\<open>status\<close>, \<^verbatim>\<open>message\<close> and \<^verbatim>\<open>file_path\<close> by truth value:
  every member of \<^verbatim>\<open>TaskStatus\<close> is a non-empty string and so true, a string is true
  when it is not empty.
\<close>

definition update_task :: "registry \<Rightarrow> pystr \<Rightarrow> update_args \<Rightarrow> registry" where
  "update_task tasks task_id u =
     (case tasks task_id of
        None \<Rightarrow> tasks
      | Some t \<Rightarrow>
          let t1 = (case u_status u of None \<Rightarrow> t | Some s \<Rightarrow> t\<lparr>t_status := s\<rparr>);
              t2 = (case u_progress u of None \<Rightarrow> t1 | Some p \<Rightarrow> t1\<lparr>t_progress := p\<rparr>);
              t3 = (case u_message u of None \<Rightarrow> t2
                    | Some m \<Rightarrow> if m \<noteq> [] then t2\<lparr>t_message := m\<rparr> else t2);
              t4 = (case u_completed_videos u of None \<Rightarrow> t3
                    | Some c \<Rightarrow> t3\<lparr>t_completed_videos := c\<rparr>);
              t5 = (case u_file_path u of None \<Rightarrow> t4
                    | Some f \<Rightarrow> if f \<noteq> [] then t4\<lparr>t_file_paths := t_file_paths t4 @ [f]\<rparr> else t4)
          in tasks(task_id \<mapsto> t5))"

definition get_task :: "registry \<Rightarrow> pystr \<Rightarrow> TaskResponse" where
  "get_task tasks task_id =
     (case tasks task_id of
        None \<Rightarrow>
          \<lparr>r_task_id = task_id, r_status = FAILED, r_message = py ''Task not found'',
           r_progress = 0, r_total_videos = 0, r_completed_videos = 0\<rparr>
      | Some t \<Rightarrow>
          \<lparr>r_task_id = task_id, r_status = t_status t, r_message = t_message t,
           r_progress = t_progress t, r_total_videos = t_total_videos t,
           r_completed_videos = t_completed_videos t\<rparr>)"

definition get_task_files :: "registry \<Rightarrow> pystr \<Rightarrow> pystr list" where
  "get_task_files tasks task_id =
     (case tasks task_id of None \<Rightarrow> [] | Some t \<Rightarrow> t_file_paths t)"

definition cleanup_task :: "registry \<Rightarrow> pystr \<Rightarrow> registry" where
  "cleanup_task tasks task_id = (if task_id \<in> dom tasks then tasks(task_id := None) else tasks)"

text \<open>
  A sequence of update calls on one task, in the order issued.
\<close>

definition run_updates :: "registry \<Rightarrow> pystr \<Rightarrow> update_args list \<Rightarrow> registry" where
  "run_updates tasks task_id us = foldl (\<lambda>r u. update_task r task_id u) tasks us"

text \<open>
  A sequence of registry operations by any callers. \<open>fresh_creates\<close> says that each
  \<^verbatim>\<open>uuid4\<close> id was new when it was drawn, which is what a UUID is for.
\<close>

datatype registry_op = Create pystr int | Update pystr update_args

fun apply_op :: "registry \<Rightarrow> registry_op \<Rightarrow> registry" where
  "apply_op tasks (Create new_id n) = snd (create_task tasks new_id n)"
| "apply_op tasks (Update task_id u) = update_task tasks task_id u"

fun run_ops :: "registry \<Rightarrow> registry_op list \<Rightarrow> registry" where
  "run_ops tasks [] = tasks"
| "run_ops tasks (x # xs) = run_ops (apply_op tasks x) xs"

fun fresh_creates :: "registry \<Rightarrow> registry_op list \<Rightarrow> bool" where
  "fresh_creates tasks [] = True"
| "fresh_creates tasks (Create new_id n # xs) =
     (tasks new_id = None \<and> fresh_creates (apply_op tasks (Create new_id n)) xs)"
| "fresh_creates tasks (Update task_id u # xs) =
     fresh_creates (apply_op tasks (Update task_id u)) xs"

section \<open>utils/helpers.py\<close>

text \<open>
  \<open>is_space\<close> is \<^verbatim>\<open>str.isspace\<close> on one code point: the characters that \<^verbatim>\<open>split()\<close>
  and \<^verbatim>\<open>strip()\<close> without an argument treat as whitespace.
\<close>

definition is_ascii :: "nat \<Rightarrow> bool" where
  "is_ascii c \<longleftrightarrow> c < 128"

definition is_space :: "nat \<Rightarrow> bool" where
  "is_space c \<longleftrightarrow>
     (9 \<le> c \<and> c \<le> 13) \<or> (28 \<le> c \<and> c \<le> 32) \<or> c = 133 \<or> c = 160 \<or> c = 5760
     \<or> (8192 \<le> c \<and> c \<le> 8202) \<or> c = 8232 \<or> c = 8233 \<or> c = 8239 \<or> c = 8287 \<or> c = 12288"

text \<open>
  \<^verbatim>\<open>s.split()\<close>: skip whitespace, take the longest run of other characters as a word,
  repeat. \<^verbatim>\<open>sep.join(words)\<close> and \<^verbatim>\<open>s.strip()\<close> follow.
\<close>

function py_split :: "pystr \<Rightarrow> pystr list" where
  "py_split s =
     (case dropWhile is_space s of
        [] \<Rightarrow> []
      | c # cs \<Rightarrow>
          (c # takeWhile (\<lambda>x. \<not> is_space x) cs) # py_split (dropWhile (\<lambda>x. \<not> is_space x) cs))"
  by pat_completeness auto
termination
proof (relation "measure length")
  show "wf (measure length)" by simp
next
  fix s :: pystr and c cs
  assume "dropWhile is_space s = c # cs"
  then have "length s \<ge> Suc (length cs)"
    using length_dropWhile_le [of is_space s] by simp
  moreover have "length (dropWhile (\<lambda>x. \<not> is_space x) cs) \<le> length cs"
    by (rule length_dropWhile_le)
  ultimately show "(dropWhile (\<lambda>x. \<not> is_space x) cs, s) \<in> measure length"
    by simp
qed

declare py_split.simps [simp del]

fun py_join :: "pystr \<Rightarrow> pystr list \<Rightarrow> pystr" where
  "py_join sep [] = []"
| "py_join sep [w] = w"
| "py_join sep (w # v # vs) = w @ sep @ py_join sep (v # vs)"

definition py_strip :: "pystr \<Rightarrow> pystr" where
  "py_strip s = rev (dropWhile is_space (rev (dropWhile is_space s)))"

text \<open>
  \<^verbatim>\<open>s.encode('ascii', 'ignore').decode('ascii')\<close> drops every code point above 127.
  \<open>invalid_chars\<close> is the string \<^verbatim>\<open><>:"/\|?*\<close> as code points; \<open>replace_char\<close> is
  \<^verbatim>\<open>str.replace\<close> for a one-character pattern, 95 is the underscore and 32 the space.
\<close>

definition encode_ascii_ignore :: "pystr \<Rightarrow> pystr" where
  "encode_ascii_ignore s = filter is_ascii s"

definition invalid_chars :: pystr where
  "invalid_chars = [60, 62, 58, 34, 47, 92, 124, 63, 42]"

definition replace_char :: "nat \<Rightarrow> nat \<Rightarrow> pystr \<Rightarrow> pystr" where
  "replace_char old new s = map (\<lambda>c. if c = old then new else c) s"

text \<open>
  \<^verbatim>\<open>sanitize_filename\<close>. \<^verbatim>\<open>unicodedata.normalize('NFKD', _)\<close> belongs to the standard
  library and is the parameter \<open>nfkd\<close>.
\<close>

definition sanitize_filename :: "(pystr \<Rightarrow> pystr) \<Rightarrow> pystr \<Rightarrow> pystr" where
  "sanitize_filename nfkd filename =
     (let f1 = nfkd filename;
          f2 = encode_ascii_ignore f1;
          f3 = foldl (\<lambda>f ch. replace_char ch 95 f) f2 invalid_chars;
          f4 = py_join [32] (py_split f3)
      in py_strip (take 200 f4))"

text \<open>
  Predicates for the statements: a string with two whitespace characters in a row, and a
  list of words as \<^verbatim>\<open>split()\<close> returns them (none empty, none with whitespace).
  \<open>nfkd_sample\<close> is a normalisation table with one entry (U+00E9 to e and U+0301), used
  as a concrete instance.
\<close>

fun space_run :: "pystr \<Rightarrow> bool" where
  "space_run [] = False"
| "space_run [a] = False"
| "space_run (a # b # cs) = ((is_space a \<and> is_space b) \<or> space_run (b # cs))"

definition words_ok :: "pystr list \<Rightarrow> bool" where
  "words_ok ws = list_all (\<lambda>w. w \<noteq> [] \<and> list_all (\<lambda>c. \<not> is_space c) w) ws"

definition nfkd_sample :: "pystr \<Rightarrow> pystr" where
  "nfkd_sample s = concat (map (\<lambda>c. if c = 233 then [101, 769] else [c]) s)"

section \<open>utils/validators.py\<close>

text \<open>
  Each regular expression of this file is a choice of literal prefixes followed by the
  group \<^verbatim>\<open>([^&\n?#]+)\<close>: one or more characters other than the ampersand, the newline,
  the question mark and the hash sign (\<open>terminator\<close>). \<^verbatim>\<open>re.search\<close> tries the start
  positions from left to right (\<open>re_search\<close>) and at each one the prefixes in order
  (\<open>match_at\<close>); the group is greedy and ends the pattern, so it is the longest run of
  such characters and must not be empty. The result is \<^verbatim>\<open>match.group(1)\<close>.
\<close>

definition terminator :: "nat \<Rightarrow> bool" where
  "terminator c \<longleftrightarrow> c = 38 \<or> c = 10 \<or> c = 63 \<or> c = 35"

fun match_at :: "pystr list \<Rightarrow> pystr \<Rightarrow> pystr option" where
  "match_at [] s = None"
| "match_at (lit # lits) s =
     (if prefix lit s \<and> takeWhile (\<lambda>c. \<not> terminator c) (drop (length lit) s) \<noteq> []
      then Some (takeWhile (\<lambda>c. \<not> terminator c) (drop (length lit) s))
      else match_at lits s)"

fun re_search :: "pystr list \<Rightarrow> pystr \<Rightarrow> pystr option" where
  "re_search lits [] = None"
| "re_search lits (c # cs) =
     (case match_at lits (c # cs) of Some g \<Rightarrow> Some g | None \<Rightarrow> re_search lits cs)"

text \<open>
  \<^verbatim>\<open>extract_video_id\<close> tries its three patterns in order and returns the first match.
\<close>

definition video_patterns :: "pystr list list" where
  "video_patterns =
     [[py ''youtube.com/watch?v='', py ''youtu.be/''],
      [py ''youtube.com/embed/''],
      [py ''youtube.com/v/'']]"

fun first_match :: "pystr list list \<Rightarrow> pystr \<Rightarrow> pystr option" where
  "first_match [] url = None"
| "first_match (pattern # patterns) url =
     (case re_search pattern url of Some g \<Rightarrow> Some g | None \<Rightarrow> first_match patterns url)"

definition extract_video_id :: "pystr \<Rightarrow> pystr option" where
  "extract_video_id url = first_match video_patterns url"

definition extract_playlist_id :: "pystr \<Rightarrow> pystr option" where
  "extract_playlist_id url = re_search [py ''list=''] url"

text \<open>
  \<^verbatim>\<open>bool(a or b)\<close> on optional strings: \<^verbatim>\<open>None\<close> and the empty string are false.
\<close>

fun truthy :: "pystr option \<Rightarrow> bool" where
  "truthy None = False"
| "truthy (Some s) = (s \<noteq> [])"

definition is_valid_youtube_url :: "pystr \<Rightarrow> bool" where
  "is_valid_youtube_url url =
     (let v = extract_video_id url; p = extract_playlist_id url
      in truthy (if truthy v then v else p))"

text \<open>
  For the statements: \<open>occurs_within lit p rest\<close> says that \<open>lit\<close> occurs in \<open>p @ rest\<close>
  starting at a position inside \<open>p\<close>. \<open>id_at lits lit url p g s\<close> says that \<open>url\<close> is
  \<open>p\<close>, then the literal \<open>lit\<close>, then the identifier \<open>g\<close> (not empty, without
  terminator), then the end of the URL or a terminator, and that none of the literals
  \<open>lits\<close> starts inside \<open>p\<close>: the first occurrence of the pattern's literals is this one.
\<close>

fun occurs_within :: "pystr \<Rightarrow> pystr \<Rightarrow> pystr \<Rightarrow> bool" where
  "occurs_within lit [] rest = False"
| "occurs_within lit (c # p) rest = (prefix lit (c # p @ rest) \<or> occurs_within lit p rest)"

definition id_at :: "pystr list \<Rightarrow> pystr \<Rightarrow> pystr \<Rightarrow> pystr \<Rightarrow> pystr \<Rightarrow> pystr \<Rightarrow> bool" where
  "id_at lits lit url p g s \<longleftrightarrow>
     url = p @ lit @ g @ s \<and> g \<noteq> [] \<and> list_all (\<lambda>c. \<not> terminator c) g
     \<and> (s = [] \<or> terminator (hd s))
     \<and> list_all (\<lambda>l. \<not> occurs_within l p (lit @ g @ s)) lits"

section \<open>config.py\<close>

text \<open>The two settings that the modelled code reads.\<close>

record Settings =
  DOWNLOAD_DIR :: pystr
  AUDIO_FORMAT :: pystr

definition settings :: Settings where
  "settings = \<lparr>DOWNLOAD_DIR = py ''downloads'', AUDIO_FORMAT = py ''mp3''\<rparr>"

section \<open>services/youtube\_service.py\<close>

text \<open>
  The external engine is the environment. \<^verbatim>\<open>get_video_info\<close> catches every exception
  and returns \<^verbatim>\<open>None\<close>, so its result is a \<open>VideoInfo option\<close>; a call that may raise
  has an \<open>outcome\<close>. \<open>final_file\<close> is the string of
  \<^verbatim>\<open>download_dir / f"{filename}.{settings.AUDIO_FORMAT}"\<close>.
\<close>

definition final_file :: "Settings \<Rightarrow> pystr \<Rightarrow> pystr" where
  "final_file cfg filename = DOWNLOAD_DIR cfg @ py ''/'' @ filename @ py ''.'' @ AUDIO_FORMAT cfg"

text \<open>
  The dictionary that the engine passes to the progress hook. \<open>Downloading r\<close> has status
  \<^verbatim>\<open>downloading\<close>, and \<open>r\<close> is what \<^verbatim>\<open>float\<close> made of the percent string
  (\<^verbatim>\<open>d.get('_percent_str', '0%').strip('%')\<close>): \<open>None\<close> when it raised, a finite number
  otherwise. \<open>Finished\<close> has status \<^verbatim>\<open>finished\<close>. \<open>Other\<close> is any other dictionary, also
  one that makes the hook raise (the hook catches and logs that).
\<close>

datatype hook_event = Downloading "real option" | Finished | Other

text \<open>\<^verbatim>\<open>f"{percent:.0f}"\<close>: the nearest integer, a tie to the even one, with the sign.\<close>

definition round_half_even :: "real \<Rightarrow> int" where
  "round_half_even x =
     (let f = \<lfloor>x\<rfloor> in
      if x - of_int f < 1 / 2 then f
      else if x - of_int f > 1 / 2 then f + 1
      else if even f then f else f + 1)"

definition fmt_0f :: "real \<Rightarrow> pystr" where
  "fmt_0f x =
     (if x < 0 then 45 # str_nat (nat (round_half_even (- x)))
      else str_nat (nat (round_half_even x)))"

text \<open>
  \<^verbatim>\<open>progress_hook\<close>: from the value of \<^verbatim>\<open>last_percent[0]\<close> and one event to the new value
  and the update it schedules, if any.
\<close>

fun progress_hook :: "real \<Rightarrow> hook_event \<Rightarrow> real \<times> update_args option" where
  "progress_hook last_percent (Downloading (Some percent)) =
     (if \<bar>percent - last_percent\<bar> \<ge> 5
      then (percent,
            Some (no_args\<lparr>u_progress := Some (10 + percent * 0.7),
                           u_message := Some (py ''Downloading: '' @ fmt_0f percent @ py ''%'')\<rparr>))
      else (last_percent, None))"
| "progress_hook last_percent (Downloading None) = (last_percent, None)"
| "progress_hook last_percent Finished =
     (last_percent,
      Some (no_args\<lparr>u_progress := Some 80, u_message := Some (py ''Converting to MP3...'')\<rparr>))"
| "progress_hook last_percent Other = (last_percent, None)"

text \<open>
  The updates that the hook schedules over the events of one download. The event loop
  runs them in the order scheduled.
\<close>

fun run_hook :: "real \<Rightarrow> hook_event list \<Rightarrow> update_args list" where
  "run_hook last_percent [] = []"
| "run_hook last_percent (d # ds) =
     (case progress_hook last_percent d of
        (last', None) \<Rightarrow> run_hook last' ds
      | (last', Some u) \<Rightarrow> u # run_hook last' ds)"


text \<open>
  What the engine does during one \<^verbatim>\<open>download_single_video\<close> for the given URL: the
  result of the metadata lookup, the events passed to the hook, whether
  \<^verbatim>\<open>YoutubeDL(...).download\<close> returns or raises, and the results of
  \<^verbatim>\<open>final_file.exists()\<close> and \<^verbatim>\<open>final_file.stat()\<close>.
\<close>

record single_env =
  se_video_info :: "VideoInfo option"
  se_events :: "hook_event list"
  se_download :: "unit outcome"
  se_exists :: "bool outcome"
  se_stat :: "unit outcome"

text \<open>The handler \<^verbatim>\<open>except Exception as e\<close> of both workflows.\<close>

definition error_update :: "pystr \<Rightarrow> update_args" where
  "error_update e = no_args\<lparr>u_status := Some FAILED, u_message := Some (py ''Error: '' @ e)\<rparr>"

text \<open>
  \<^verbatim>\<open>download_single_video\<close>, as the list of \<^verbatim>\<open>update_task\<close> calls it makes on its task,
  in order; \<open>run_updates\<close> applies them. The hook's updates are applied while the download
  runs, before the workflow goes on. An exception anywhere in the body goes to the handler
  at the end.
\<close>

definition download_single_video :: "Settings \<Rightarrow> (pystr \<Rightarrow> pystr) \<Rightarrow> single_env \<Rightarrow> update_args list" where
  "download_single_video cfg nfkd env =
     no_args\<lparr>u_status := Some PROCESSING,
              u_message := Some (py ''Fetching video information...''),
              u_progress := Some 10\<rparr> #
     (case se_video_info env of
        None \<Rightarrow>
          [no_args\<lparr>u_status := Some FAILED,
                    u_message := Some (py ''Failed to fetch video information'')\<rparr>]
      | Some video_info \<Rightarrow>
          let filename = sanitize_filename nfkd (vi_title video_info) in
          run_hook 0 (se_events env) @
          (case se_download env of
             Raises e \<Rightarrow> [error_update e]
           | Returns _ \<Rightarrow>
               (case se_exists env of
                  Raises e \<Rightarrow> [error_update e]
                | Returns False \<Rightarrow>
                    [no_args\<lparr>u_status := Some FAILED,
                              u_message := Some (py ''File conversion failed'')\<rparr>]
                | Returns True \<Rightarrow>
                    (case se_stat env of
                       Raises e \<Rightarrow> [error_update e]
                     | Returns _ \<Rightarrow>
                         [\<lparr>u_status = Some COMPLETED, u_progress = Some 100,
                           u_message = Some (py ''Download completed!''),
                           u_completed_videos = Some 1,
                           u_file_path = Some (final_file cfg filename)\<rparr>]))))"

text \<open>What the engine does for one item of a playlist.\<close>

record item_env =
  ie_video_info :: "VideoInfo option"
  ie_download :: "unit outcome"
  ie_exists :: "bool outcome"

text \<open>
  The body of the loop of \<^verbatim>\<open>download_playlist\<close> for the item at index \<open>idx\<close>: the new
  value of \<^verbatim>\<open>completed\<close> and the updates made. Every exception in the body is caught and
  the loop continues; that includes the division by \<^verbatim>\<open>total\<close>, made after
  \<^verbatim>\<open>completed\<close> was incremented.
\<close>

definition playlist_item ::
  "Settings \<Rightarrow> (pystr \<Rightarrow> pystr) \<Rightarrow> item_env \<Rightarrow> int \<Rightarrow> nat \<Rightarrow> int \<Rightarrow> int \<times> update_args list" where
  "playlist_item cfg nfkd ie n idx completed =
     (case ie_video_info ie of
        None \<Rightarrow> (completed, [])
      | Some video_info \<Rightarrow>
          let filename = sanitize_filename nfkd (vi_title video_info);
              msg = no_args\<lparr>u_message :=
                      Some (py ''Downloading '' @ str_int (int idx + 1) @ py ''/'' @ str_int n
                            @ py '': '' @ take 50 (vi_title video_info) @ py ''...'')\<rparr>
          in (case ie_download ie of
                Raises e \<Rightarrow> (completed, [msg])
              | Returns _ \<Rightarrow>
                  (case ie_exists ie of
                     Raises e \<Rightarrow> (completed, [msg])
                   | Returns False \<Rightarrow> (completed, [msg])
                   | Returns True \<Rightarrow>
                       if n = 0 then (completed + 1, [msg])
                       else (completed + 1,
                             [msg,
                              no_args\<lparr>u_progress :=
                                         Some (of_int (completed + 1) / of_int n * 100),
                                       u_completed_videos := Some (completed + 1),
                                       u_file_path := Some (final_file cfg filename)\<rparr>]))))"

text \<open>
  The loop over \<^verbatim>\<open>enumerate(video_ids)\<close>, from index \<open>idx\<close> on: the final value of
  \<^verbatim>\<open>completed\<close>, the updates made, and the URLs given to \<^verbatim>\<open>get_video_info\<close>.
\<close>

fun playlist_loop ::
  "Settings \<Rightarrow> (pystr \<Rightarrow> pystr) \<Rightarrow> (nat \<Rightarrow> item_env) \<Rightarrow> int \<Rightarrow> nat \<Rightarrow> int \<Rightarrow> pystr list
   \<Rightarrow> int \<times> update_args list \<times> pystr list" where
  "playlist_loop cfg nfkd env n idx completed [] = (completed, [], [])"
| "playlist_loop cfg nfkd env n idx completed (video_id # rest) =
     (let url = py ''https://www.youtube.com/watch?v='' @ video_id;
          (completed', ups) = playlist_item cfg nfkd (env idx) n idx completed;
          (c, more, urls) = playlist_loop cfg nfkd env n (Suc idx) completed' rest
      in (c, ups @ more, url # urls))"

text \<open>
  \<^verbatim>\<open>download_playlist\<close>: the \<^verbatim>\<open>update_task\<close> calls on its task, in order, and the URLs
  looked up. No statement outside the loop body can raise, so the outer handler is never
  entered.
\<close>

definition download_playlist ::
  "Settings \<Rightarrow> (pystr \<Rightarrow> pystr) \<Rightarrow> (nat \<Rightarrow> item_env) \<Rightarrow> pystr list \<Rightarrow> update_args list \<times> pystr list" where
  "download_playlist cfg nfkd env video_ids =
     (let n = int (length video_ids);
          (completed, ups, urls) = playlist_loop cfg nfkd env n 0 0 video_ids
      in ([no_args\<lparr>u_status := Some PROCESSING,
                     u_message := Some (py ''Starting download of '' @ str_int n @ py '' videos...'')\<rparr>]
          @ ups
          @ [if completed > 0
             then no_args\<lparr>u_status := Some COMPLETED,
                          u_message := Some (py ''Completed! Downloaded '' @ str_int completed
                                             @ py ''/'' @ str_int n @ py '' videos''),
                          u_progress := Some 100\<rparr>
             else no_args\<lparr>u_status := Some FAILED,
                          u_message := Some (py ''No videos were downloaded successfully'')\<rparr>],
          urls))"

text \<open>
  For the statements: an item succeeds when its metadata lookup gives a result, its
  download returns and its output file exists; \<open>successes env m\<close> counts the items that
  succeed among the first \<open>m\<close>; \<open>watch_url\<close> is the URL that the loop builds for an id.
\<close>

definition item_succeeds :: "item_env \<Rightarrow> bool" where
  "item_succeeds ie \<longleftrightarrow>
     ie_video_info ie \<noteq> None \<and> ie_download ie = Returns () \<and> ie_exists ie = Returns True"

definition successes :: "(nat \<Rightarrow> item_env) \<Rightarrow> nat \<Rightarrow> nat" where
  "successes env m = length (filter (\<lambda>i. item_succeeds (env i)) [0..<m])"

definition watch_url :: "pystr \<Rightarrow> pystr" where
  "watch_url video_id = py ''https://www.youtube.com/watch?v='' @ video_id"

section \<open>api/routes.py\<close>

text \<open>
  What a handler raises: \<^verbatim>\<open>HTTPException(status_code, detail)\<close>, or an
  \<^verbatim>\<open>IndexError\<close> that nothing catches.
\<close>

datatype raised = HTTPException int pystr | IndexError

text \<open>
  \<^verbatim>\<open>xs[i]\<close> on a list: an index from \<^verbatim>\<open>-len(xs)\<close> to -1 counts from the end, and an
  index outside \<^verbatim>\<open>-len(xs) .. len(xs) - 1\<close> raises.
\<close>

definition py_index :: "'a list \<Rightarrow> int \<Rightarrow> raised + 'a" where
  "py_index xs i =
     (if 0 \<le> i \<and> i < int (length xs) then Inr (xs ! nat i)
      else if i < 0 \<and> - int (length xs) \<le> i then Inr (xs ! nat (int (length xs) + i))
      else Inl IndexError)"

text \<open>
  What a handler passes to \<^verbatim>\<open>background_tasks.add_task\<close>: a download workflow of the
  service with its arguments, or \<^verbatim>\<open>cleanup_file\<close> with the path and the delay in seconds.
\<close>

datatype background_task =
  DownloadSingleVideo pystr pystr
  | DownloadPlaylist "pystr list" pystr

datatype scheduled_cleanup = CleanupFile pystr int

text \<open>
  \<^verbatim>\<open>POST /api/info\<close>, the handler \<^verbatim>\<open>get_video_info\<close> of this file. \<open>lookup_video\<close> and
  \<open>lookup_playlist\<close> are the results of the service's \<^verbatim>\<open>get_video_info\<close> and
  \<^verbatim>\<open>get_playlist_info\<close> for a URL.
\<close>

definition get_video_info ::
  "(pystr \<Rightarrow> VideoInfo option) \<Rightarrow> (pystr \<Rightarrow> pystr option \<times> VideoInfo list) \<Rightarrow> DownloadRequest
   \<Rightarrow> raised + VideoInfoResponse" where
  "get_video_info lookup_video lookup_playlist request =
     (let url = dr_url request in
      if \<not> is_valid_youtube_url url then Inl (HTTPException 400 (py ''Invalid YouTube URL''))
      else if py_in (py ''list='') url then
        (case lookup_playlist url of
           (playlist_title, videos) \<Rightarrow>
             if videos = [] then Inl (HTTPException 404 (py ''Playlist not found or empty''))
             else Inr \<lparr>vr_is_playlist = True, vr_videos = videos,
                       vr_playlist_title = playlist_title\<rparr>)
      else
        (case lookup_video url of
           None \<Rightarrow> Inl (HTTPException 404 (py ''Video not found''))
         | Some video \<Rightarrow>
             Inr \<lparr>vr_is_playlist = False, vr_videos = [video], vr_playlist_title = None\<rparr>))"

text \<open>
  \<^verbatim>\<open>POST /api/download\<close> and \<^verbatim>\<open>POST /api/download-playlist\<close>: the response, the new
  registry and the scheduled task. \<open>new_id\<close> is the id that \<^verbatim>\<open>uuid4\<close> returns. The
  second handler is \<^verbatim>\<open>download_playlist\<close> in the source; here it is
  \<open>download_playlist_route\<close>, because the service has a function of that name.
\<close>

definition download_video ::
  "registry \<Rightarrow> pystr \<Rightarrow> DownloadRequest \<Rightarrow> raised + TaskResponse \<times> registry \<times> background_task" where
  "download_video tasks new_id request =
     (let url = dr_url request in
      if \<not> is_valid_youtube_url url then Inl (HTTPException 400 (py ''Invalid YouTube URL''))
      else
        (case create_task tasks new_id 1 of
           (task_id, tasks') \<Rightarrow>
             Inr (get_task tasks' task_id, tasks', DownloadSingleVideo url task_id)))"

definition download_playlist_route ::
  "registry \<Rightarrow> pystr \<Rightarrow> PlaylistRequest \<Rightarrow> raised + TaskResponse \<times> registry \<times> background_task" where
  "download_playlist_route tasks new_id request =
     (if pr_video_ids request = [] then Inl (HTTPException 400 (py ''No videos selected''))
      else
        (case create_task tasks new_id (int (length (pr_video_ids request))) of
           (task_id, tasks') \<Rightarrow>
             Inr (get_task tasks' task_id, tasks',
                  DownloadPlaylist (pr_video_ids request) task_id)))"

definition get_task_status :: "registry \<Rightarrow> pystr \<Rightarrow> raised + TaskResponse" where
  "get_task_status tasks task_id = Inr (get_task tasks task_id)"

text \<open>
  \<^verbatim>\<open>GET /api/download-single/{task_id}/{file_index}\<close>. \<open>on_disk\<close> is
  \<^verbatim>\<open>Path.exists\<close>; \<open>path_name\<close> is \<^verbatim>\<open>Path(p).name\<close>, the part after the last slash.
  The result is the \<^verbatim>\<open>FileResponse\<close> and the scheduled \<^verbatim>\<open>cleanup_file\<close>.
\<close>

record FileResponse =
  fr_path :: pystr
  fr_filename :: pystr
  fr_media_type :: pystr

definition path_name :: "pystr \<Rightarrow> pystr" where
  "path_name p = rev (takeWhile (\<lambda>c. c \<noteq> 47) (rev p))"

definition download_single_from_playlist ::
  "registry \<Rightarrow> (pystr \<Rightarrow> bool) \<Rightarrow> pystr \<Rightarrow> int \<Rightarrow> raised + FileResponse \<times> scheduled_cleanup" where
  "download_single_from_playlist tasks on_disk task_id file_index =
     (let task = get_task tasks task_id in
      if r_status task \<noteq> COMPLETED then Inl (HTTPException 400 (py ''Task not completed''))
      else
        let files = get_task_files tasks task_id in
        if files = [] \<or> file_index \<ge> int (length files)
        then Inl (HTTPException 404 (py ''File not found''))
        else
          (case py_index files file_index of
             Inl e \<Rightarrow> Inl e
           | Inr file_path \<Rightarrow>
               if \<not> on_disk file_path then Inl (HTTPException 404 (py ''File not found''))
               else
                 let safe_filename = encode_ascii_ignore (path_name file_path);
                     safe_filename =
                       (if safe_filename = []
                        then py ''audio_'' @ str_int file_index @ py ''.mp3''
                        else safe_filename)
                 in Inr (\<lparr>fr_path = file_path, fr_filename = safe_filename,
                           fr_media_type = py ''audio/mpeg''\<rparr>,
                         CleanupFile file_path 30)))"

text \<open>
  The updates that a scheduled download makes, and the task it makes them on. \<open>engine\<close>
  holds what the external engine does during the run.
\<close>

record engine =
  en_single :: single_env
  en_items :: "nat \<Rightarrow> item_env"

fun task_updates :: "Settings \<Rightarrow> (pystr \<Rightarrow> pystr) \<Rightarrow> engine \<Rightarrow> background_task \<Rightarrow> update_args list" where
  "task_updates cfg nfkd en (DownloadSingleVideo url task_id) =
     download_single_video cfg nfkd (en_single en)"
| "task_updates cfg nfkd en (DownloadPlaylist video_ids task_id) =
     fst (download_playlist cfg nfkd (en_items en) video_ids)"

fun task_of :: "background_task \<Rightarrow> pystr" where
  "task_of (DownloadSingleVideo url task_id) = task_id"
| "task_of (DownloadPlaylist video_ids task_id) = task_id"

text \<open>Sample values for concrete instances.\<close>

definition sample_video :: VideoInfo where
  "sample_video = \<lparr>vi_id = py ''abc123'', vi_title = py ''Song'', vi_duration = 200,
                    vi_thumbnail = [], vi_selected = True\<rparr>"

definition done_task :: registry where
  "done_task = [py ''t1'' \<mapsto>
     \<lparr>t_status = COMPLETED, t_progress = 100, t_message = py ''Download completed!'',
      t_total_videos = 1, t_completed_videos = 1,
      t_file_paths = [py ''downloads/Song.mp3'']\<rparr>]"

definition three_items :: "nat \<Rightarrow> item_env" where
  "three_items i =
     (if i = 1 then \<lparr>ie_video_info = None, ie_download = Returns (), ie_exists = Returns True\<rparr>
      else \<lparr>ie_video_info = Some sample_video, ie_download = Returns (),
             ie_exists = Returns True\<rparr>)"

definition sample_engine :: engine where
  "sample_engine =
     \<lparr>en_single =
        \<lparr>se_video_info = Some sample_video,
         se_events = [Downloading (Some 50), Finished],
         se_download = Returns (), se_exists = Returns True, se_stat = Returns ()\<rparr>,
      en_items = three_items\<rparr>"

section \<open>The task registry\<close>

lemma update_task_other:
  "other \<noteq> task_id \<Longrightarrow> update_task tasks task_id u other = tasks other"
  by (simp add: update_task_def Let_def split: option.splits)

lemma update_task_unknown:
  "tasks task_id = None \<Longrightarrow> update_task tasks task_id u = tasks"
  by (simp add: update_task_def)

lemma update_task_known:
  assumes "tasks task_id = Some t"
  shows "\<exists>t'. update_task tasks task_id u task_id = Some t'
    \<and> t_status t' = (case u_status u of None \<Rightarrow> t_status t | Some s \<Rightarrow> s)
    \<and> t_progress t' = (case u_progress u of None \<Rightarrow> t_progress t | Some p \<Rightarrow> p)
    \<and> t_message t' = (case u_message u of None \<Rightarrow> t_message t
                       | Some m \<Rightarrow> if m = [] then t_message t else m)
    \<and> t_completed_videos t' =
        (case u_completed_videos u of None \<Rightarrow> t_completed_videos t | Some c \<Rightarrow> c)
    \<and> t_file_paths t' = (case u_file_path u of None \<Rightarrow> t_file_paths t
                          | Some f \<Rightarrow> if f = [] then t_file_paths t else t_file_paths t @ [f])
    \<and> t_total_videos t' = t_total_videos t"
  using assms by (simp add: update_task_def Let_def split: option.splits)

text \<open>
  Claim C3. For a task id that is not in the registry, whether it was never created or
  was removed by \<^verbatim>\<open>cleanup_task\<close>, \<^verbatim>\<open>get_task\<close> returns the response with status
  \<^verbatim>\<open>failed\<close> and message "Task not found", and the handler of
  \<^verbatim>\<open>GET /api/task/{task_id}\<close> returns that response and no HTTP error.
\<close>

theorem get_task_unknown:
  assumes "tasks task_id = None"
  shows "get_task tasks task_id =
           \<lparr>r_task_id = task_id, r_status = FAILED, r_message = py ''Task not found'',
            r_progress = 0, r_total_videos = 0, r_completed_videos = 0\<rparr>
       \<and> get_task (cleanup_task tasks' task_id) task_id = get_task tasks task_id
       \<and> get_task_status tasks task_id = Inr (get_task tasks task_id)
       \<and> get_task_status (cleanup_task tasks' task_id) task_id = Inr (get_task tasks task_id)"
  using assms by (auto simp: get_task_def cleanup_task_def get_task_status_def domIff)

theorem get_task_unknown_witness:
  "get_task Map.empty (py ''abc'') =
     \<lparr>r_task_id = py ''abc'', r_status = FAILED, r_message = py ''Task not found'',
      r_progress = 0, r_total_videos = 0, r_completed_videos = 0\<rparr>
   \<and> get_task_status (cleanup_task (snd (create_task Map.empty (py ''abc'') 1)) (py ''abc''))
        (py ''abc'') = Inr (get_task Map.empty (py ''abc''))"
  using get_task_unknown [of Map.empty "py ''abc''" "snd (create_task Map.empty (py ''abc'') 1)"]
  by simp

text \<open>
  Claim C4, as amended. For a task in the registry, \<^verbatim>\<open>update_task\<close> stores a given
  status, progress and completed count, stores a given message when it is not the empty
  string, appends a given file path at the end of the file list when it is not the empty
  string, and leaves every other field, the total and every other task as they were; an
  empty message or file path counts as not given. For an id that is not in the registry
  the call changes nothing.
\<close>

theorem update_task_frame:
  "(tasks task_id = Some t \<longrightarrow>
      (\<exists>t'. update_task tasks task_id u task_id = Some t'
        \<and> t_status t' = (case u_status u of None \<Rightarrow> t_status t | Some s \<Rightarrow> s)
        \<and> t_progress t' = (case u_progress u of None \<Rightarrow> t_progress t | Some p \<Rightarrow> p)
        \<and> t_message t' = (case u_message u of None \<Rightarrow> t_message t
                           | Some m \<Rightarrow> if m = [] then t_message t else m)
        \<and> t_completed_videos t' =
            (case u_completed_videos u of None \<Rightarrow> t_completed_videos t | Some c \<Rightarrow> c)
        \<and> t_file_paths t' = (case u_file_path u of None \<Rightarrow> t_file_paths t
                              | Some f \<Rightarrow> if f = [] then t_file_paths t else t_file_paths t @ [f])
        \<and> t_total_videos t' = t_total_videos t))
   \<and> (\<forall>other. other \<noteq> task_id \<longrightarrow> update_task tasks task_id u other = tasks other)
   \<and> (tasks task_id = None \<longrightarrow> update_task tasks task_id u = tasks)"
  using update_task_known [of tasks task_id t u]
  by (simp add: update_task_other update_task_unknown)

theorem update_task_frame_witness:
  "(\<exists>t'. update_task (snd (create_task Map.empty (py ''t1'') 3)) (py ''t1'')
            \<lparr>u_status = Some PROCESSING, u_progress = Some 10, u_message = None,
             u_completed_videos = None, u_file_path = Some (py ''a.mp3'')\<rparr> (py ''t1'') = Some t'
        \<and> t_status t' = PROCESSING \<and> t_progress t' = 10 \<and> t_message t' = py ''Task created''
        \<and> t_completed_videos t' = 0 \<and> t_file_paths t' = [py ''a.mp3''] \<and> t_total_videos t' = 3)
   \<and> update_task Map.empty (py ''t1'') no_args = Map.empty"
  using update_task_frame [of "snd (create_task Map.empty (py ''t1'') 3)" "py ''t1''"
      "the (snd (create_task Map.empty (py ''t1'') 3) (py ''t1''))"
      "\<lparr>u_status = Some PROCESSING, u_progress = Some 10, u_message = None,
             u_completed_videos = None, u_file_path = Some (py ''a.mp3'')\<rparr>"]
    update_task_frame [of Map.empty "py ''t1''" undefined no_args]
  by (simp add: create_task_def py_def)

text \<open>
  The claim as first stated fails for an empty string: the call
  \<^verbatim>\<open>update_task(task_id, message="")\<close> on a new task gives a message, and the task keeps
  the message "Task created".
\<close>

theorem update_task_empty_string_counterexample:
  "map_option t_message
     (update_task (snd (create_task Map.empty (py ''t1'') 1)) (py ''t1'')
        \<lparr>u_status = None, u_progress = None, u_message = Some [],
         u_completed_videos = None, u_file_path = None\<rparr> (py ''t1''))
     = Some (py ''Task created'')
   \<and> py ''Task created'' \<noteq> []"
  by (simp add: update_task_def create_task_def py_def)

subsection \<open>The file list only grows\<close>

lemma apply_op_file_paths:
  assumes "fresh_creates tasks [x]" and "tasks task_id = Some t"
  shows "\<exists>t'. apply_op tasks x task_id = Some t'
    \<and> (t_file_paths t' = t_file_paths t \<or> (\<exists>p. t_file_paths t' = t_file_paths t @ [p]))"
proof (cases x)
  case (Create new_id n)
  with assms have "new_id \<noteq> task_id" by auto
  with Create assms(2) show ?thesis by (simp add: create_task_def)
next
  case (Update uid u)
  show ?thesis
  proof (cases "uid = task_id")
    case True
    from update_task_known [of tasks task_id t u] assms(2) obtain t' where
      "update_task tasks task_id u task_id = Some t'"
      "t_file_paths t' = (case u_file_path u of None \<Rightarrow> t_file_paths t
          | Some f \<Rightarrow> if f = [] then t_file_paths t else t_file_paths t @ [f])"
      by blast
    with True Update show ?thesis by (auto split: option.splits if_splits)
  next
    case False
    with Update assms(2) show ?thesis by (simp add: update_task_other)
  qed
qed

lemma run_ops_file_paths:
  "fresh_creates tasks ops \<Longrightarrow> tasks task_id = Some t \<Longrightarrow>
   \<exists>t'. run_ops tasks ops task_id = Some t' \<and> prefix (t_file_paths t) (t_file_paths t')"
proof (induction ops arbitrary: tasks t)
  case Nil
  then show ?case by simp
next
  case (Cons x xs)
  from Cons.prems(1) have fx: "fresh_creates tasks [x]"
    and fxs: "fresh_creates (apply_op tasks x) xs"
    by (cases x; simp)+
  from apply_op_file_paths [of tasks x task_id t] fx Cons.prems(2) obtain t1 where
    t1: "apply_op tasks x task_id = Some t1" and
    p1: "prefix (t_file_paths t) (t_file_paths t1)"
    by (auto simp: prefix_def)
  from Cons.IH [of "apply_op tasks x" t1] fxs t1 obtain t' where
    "run_ops (apply_op tasks x) xs task_id = Some t'"
    "prefix (t_file_paths t1) (t_file_paths t')"
    by blast
  with p1 show ?case by (auto intro: prefix_order.trans)
qed

text \<open>
  Claim C10. A task is created with an empty file list. Over any sequence of
  \<^verbatim>\<open>create_task\<close> and \<^verbatim>\<open>update_task\<close> calls (each new id fresh), a task that is in the
  registry stays there, each single call leaves its file list as it was or appends one
  path at the end, and the list it had at the start is a prefix of the list it has at the
  end: every recorded path and their order are kept. \<^verbatim>\<open>cleanup_task\<close> removes the whole
  entry.
\<close>

theorem file_paths_append_only:
  assumes "fresh_creates tasks (x # ops)" and "tasks task_id = Some t"
  shows "(\<exists>t'. run_ops tasks (x # ops) task_id = Some t'
            \<and> prefix (t_file_paths t) (t_file_paths t'))
       \<and> (\<exists>t'. apply_op tasks x task_id = Some t'
            \<and> (t_file_paths t' = t_file_paths t \<or> (\<exists>p. t_file_paths t' = t_file_paths t @ [p])))
       \<and> map_option t_file_paths (snd (create_task tasks new_id n) new_id) = Some []
       \<and> cleanup_task tasks task_id task_id = None"
proof -
  from assms(1) have fx: "fresh_creates tasks [x]" by (cases x; simp)
  show ?thesis
    using run_ops_file_paths [of tasks "x # ops" task_id t] assms
      apply_op_file_paths [of tasks x task_id t] fx
    by (simp add: create_task_def cleanup_task_def domIff)
qed

theorem file_paths_append_only_witness:
  "fresh_creates (snd (create_task Map.empty [1] 2))
     [Update [1] (no_args\<lparr>u_file_path := Some (py ''a.mp3'')\<rparr>), Create [2] 1,
      Update [2] (no_args\<lparr>u_file_path := Some (py ''c.mp3'')\<rparr>),
      Update [1] (no_args\<lparr>u_file_path := Some (py ''b.mp3'')\<rparr>)]
   \<and> map_option t_file_paths (snd (create_task Map.empty [1] 2) [1]) = Some []
   \<and> map_option t_file_paths
       (run_ops (snd (create_task Map.empty [1] 2))
          [Update [1] (no_args\<lparr>u_file_path := Some (py ''a.mp3'')\<rparr>), Create [2] 1,
           Update [2] (no_args\<lparr>u_file_path := Some (py ''c.mp3'')\<rparr>),
           Update [1] (no_args\<lparr>u_file_path := Some (py ''b.mp3'')\<rparr>)] [1])
       = Some [py ''a.mp3'', py ''b.mp3'']"
  using file_paths_append_only [of "snd (create_task Map.empty [1] 2)"
      "Update [1] (no_args\<lparr>u_file_path := Some (py ''a.mp3'')\<rparr>)"
      "[Create [2] 1, Update [2] (no_args\<lparr>u_file_path := Some (py ''c.mp3'')\<rparr>),
        Update [1] (no_args\<lparr>u_file_path := Some (py ''b.mp3'')\<rparr>)]"
      "[1]" "the (snd (create_task Map.empty [1] 2) [1])" "[1]" 2]
  by (simp add: create_task_def update_task_def no_args_def py_def)

section \<open>Filename sanitisation\<close>

lemma is_space_32 [simp]: "is_space 32" by (simp add: is_space_def)

lemma list_all_takeWhile: "list_all P (takeWhile P xs)"
  by (induction xs) auto

lemma takeWhile_dropWhile_run:
  "list_all P xs \<Longrightarrow> ys = [] \<or> \<not> P (hd ys) \<Longrightarrow>
   takeWhile P (xs @ ys) = xs \<and> dropWhile P (xs @ ys) = ys"
  by (induction xs) (cases ys; auto)+

lemma py_split_unfold_Cons:
  assumes "dropWhile is_space s = c # cs"
  shows "py_split s =
    (c # takeWhile (\<lambda>x. \<not> is_space x) cs) # py_split (dropWhile (\<lambda>x. \<not> is_space x) cs)"
  unfolding py_split.simps [of s] assms by simp

lemma py_split_unfold_Nil:
  assumes "dropWhile is_space s = []"
  shows "py_split s = []"
  unfolding py_split.simps [of s] assms by simp

lemma py_split_Nil [simp]: "py_split [] = []"
  by (simp add: py_split_unfold_Nil)

lemma py_split_space: "is_space c \<Longrightarrow> py_split (c # s) = py_split s"
  by (subst (1 2) py_split.simps) simp

lemma py_split_word:
  assumes "w \<noteq> []" "list_all (\<lambda>c. \<not> is_space c) w" "rest = [] \<or> is_space (hd rest)"
  shows "py_split (w @ rest) = w # py_split rest"
proof -
  obtain c cs where w: "w = c # cs" using assms(1) by (cases w) auto
  with assms(2) have c: "\<not> is_space c" and cs: "list_all (\<lambda>c. \<not> is_space c) cs" by auto
  from c have dw: "dropWhile is_space (w @ rest) = c # cs @ rest" by (simp add: w)
  from assms(3) have "rest = [] \<or> \<not> \<not> is_space (hd rest)" by simp
  from takeWhile_dropWhile_run [OF cs this]
  show ?thesis unfolding py_split_unfold_Cons [OF dw] by (simp add: w)
qed

lemma py_split_words_ok: "words_ok (py_split s)"
proof (induction s rule: py_split.induct)
  case (1 s)
  show ?case
  proof (cases "dropWhile is_space s")
    case Nil
    then show ?thesis by (simp add: py_split_unfold_Nil words_ok_def)
  next
    case (Cons c cs)
    from Cons have "\<not> is_space c" using hd_dropWhile [of is_space s] by auto
    moreover have "list_all (\<lambda>c. \<not> is_space c) (takeWhile (\<lambda>x. \<not> is_space x) cs)"
      by (rule list_all_takeWhile)
    moreover have "words_ok (py_split (dropWhile (\<lambda>x. \<not> is_space x) cs))"
      using "1.IH" [OF Cons] .
    ultimately show ?thesis
      unfolding py_split_unfold_Cons [OF Cons] words_ok_def by simp
  qed
qed

lemma py_split_set: "w \<in> set (py_split s) \<Longrightarrow> set w \<subseteq> set s"
proof (induction s arbitrary: w rule: py_split.induct)
  case (1 s)
  show ?case
  proof (cases "dropWhile is_space s")
    case Nil
    with "1.prems" show ?thesis by (simp add: py_split_unfold_Nil)
  next
    case (Cons c cs)
    have sub: "set (c # cs) \<subseteq> set s"
      using set_dropWhileD [of _ is_space s] Cons by (metis subsetI)
    from "1.prems" have "w = c # takeWhile (\<lambda>x. \<not> is_space x) cs
        \<or> w \<in> set (py_split (dropWhile (\<lambda>x. \<not> is_space x) cs))"
      unfolding py_split_unfold_Cons [OF Cons] by simp
    then show ?thesis
    proof
      assume "w = c # takeWhile (\<lambda>x. \<not> is_space x) cs"
      then have "set w \<subseteq> set (c # cs)" by (auto dest: set_takeWhileD)
      with sub show ?thesis by blast
    next
      assume "w \<in> set (py_split (dropWhile (\<lambda>x. \<not> is_space x) cs))"
      then have "set w \<subseteq> set (dropWhile (\<lambda>x. \<not> is_space x) cs)"
        using "1.IH" [OF Cons] by blast
      then have "set w \<subseteq> set (c # cs)" by (auto dest: set_dropWhileD)
      with sub show ?thesis by blast
    qed
  qed
qed


lemma py_join_Cons: "ws \<noteq> [] \<Longrightarrow> py_join sep (w # ws) = w @ sep @ py_join sep ws"
  by (cases ws) auto

lemma py_join_set: "set (py_join sep ws) \<subseteq> set sep \<union> \<Union> (set ` set ws)"
  by (induction sep ws rule: py_join.induct) auto

lemma list_all_hd_last: "xs \<noteq> [] \<Longrightarrow> list_all P xs \<Longrightarrow> P (hd xs) \<and> P (last xs)"
  by (simp add: list_all_iff)

lemma py_join_ends:
  "words_ok ws \<Longrightarrow> ws \<noteq> [] \<Longrightarrow>
   py_join [32] ws \<noteq> [] \<and> \<not> is_space (hd (py_join [32] ws)) \<and> \<not> is_space (last (py_join [32] ws))"
proof (induction "[32::nat]" ws rule: py_join.induct)
  case 1
  then show ?case by simp
next
  case (2 w)
  then have "w \<noteq> []" "list_all (\<lambda>c. \<not> is_space c) w" by (auto simp: words_ok_def)
  from list_all_hd_last [OF this] \<open>w \<noteq> []\<close> show ?case by simp
next
  case (3 w v vs)
  then have w: "w \<noteq> []" "list_all (\<lambda>c. \<not> is_space c) w" and "words_ok (v # vs)"
    by (auto simp: words_ok_def)
  with 3 list_all_hd_last [OF w] show ?case by (cases w) auto
qed

lemma py_split_py_join: "words_ok ws \<Longrightarrow> py_split (py_join [32] ws) = ws"
proof (induction "[32::nat]" ws rule: py_join.induct)
  case 1
  then show ?case by simp
next
  case (2 w)
  then have "w \<noteq> []" "list_all (\<lambda>c. \<not> is_space c) w" by (auto simp: words_ok_def)
  from py_split_word [OF this, of "[]"] show ?case by simp
next
  case (3 w v vs)
  then have w: "w \<noteq> []" "list_all (\<lambda>c. \<not> is_space c) w" and rest: "words_ok (v # vs)"
    by (auto simp: words_ok_def)
  have "py_split (w @ 32 # py_join [32] (v # vs)) = w # py_split (32 # py_join [32] (v # vs))"
    using py_split_word [OF w, of "32 # py_join [32] (v # vs)"] by simp
  also have "py_split (32 # py_join [32] (v # vs)) = py_split (py_join [32] (v # vs))"
    by (rule py_split_space) simp
  also have "\<dots> = v # vs" using 3 rest by simp
  finally show ?case by simp
qed

lemma list_all_take: "list_all P xs \<Longrightarrow> list_all P (take n xs)"
  by (auto simp: list_all_iff dest: in_set_takeD)

lemma take_word:
  assumes "w \<noteq> []" "list_all (\<lambda>c. \<not> is_space c) w"
  shows "\<exists>ws'. words_ok ws' \<and> take n w = py_join [32] ws'"
proof (cases "take n w = []")
  case True
  then have "words_ok [] \<and> take n w = py_join [32] []" by (simp add: words_ok_def)
  then show ?thesis by blast
next
  case False
  with list_all_take [OF assms(2), of n]
  have "words_ok [take n w] \<and> take n w = py_join [32] [take n w]" by (simp add: words_ok_def)
  then show ?thesis by blast
qed

lemma take_py_join:
  "words_ok ws \<Longrightarrow>
   \<exists>ws'. words_ok ws' \<and>
     (take n (py_join [32] ws) = py_join [32] ws'
      \<or> (ws' \<noteq> [] \<and> take n (py_join [32] ws) = py_join [32] ws' @ [32]))"
proof (induction "[32::nat]" ws arbitrary: n rule: py_join.induct)
  case 1
  have "words_ok [] \<and> take n (py_join [32] []) = py_join [32] []" by (simp add: words_ok_def)
  then show ?case by blast
next
  case (2 w)
  then have "w \<noteq> []" "list_all (\<lambda>c. \<not> is_space c) w" by (auto simp: words_ok_def)
  from take_word [OF this, of n] show ?case by auto
next
  case (3 w v vs)
  then have w: "w \<noteq> []" "list_all (\<lambda>c. \<not> is_space c) w" and rest: "words_ok (v # vs)"
    by (auto simp: words_ok_def)
  show ?case
  proof (cases "n \<le> length w")
    case True
    then have "take n (py_join [32] (w # v # vs)) = take n w" by simp
    with take_word [OF w, of n] show ?thesis by auto
  next
    case False
    then obtain m where m: "n - length w = Suc m" by (cases "n - length w") auto
    with False have tk: "take n (py_join [32] (w # v # vs)) = w @ 32 # take m (py_join [32] (v # vs))"
      by simp
    from "3.hyps" [OF rest, of m] obtain ws' where ok: "words_ok ws'" and
      alt: "take m (py_join [32] (v # vs)) = py_join [32] ws'
          \<or> (ws' \<noteq> [] \<and> take m (py_join [32] (v # vs)) = py_join [32] ws' @ [32])"
      by blast
    show ?thesis
    proof (cases "ws' = []")
      case True
      with alt tk have "take n (py_join [32] (w # v # vs)) = py_join [32] [w] @ [32]" by simp
      moreover from w have "words_ok [w]" by (simp add: words_ok_def)
      ultimately show ?thesis by blast
    next
      case False
      from w ok have ok': "words_ok (w # ws')" by (simp add: words_ok_def)
      from alt show ?thesis
      proof
        assume "take m (py_join [32] (v # vs)) = py_join [32] ws'"
        with tk False have "take n (py_join [32] (w # v # vs)) = py_join [32] (w # ws')"
          by (simp add: py_join_Cons)
        with ok' show ?thesis by blast
      next
        assume "ws' \<noteq> [] \<and> take m (py_join [32] (v # vs)) = py_join [32] ws' @ [32]"
        with tk have "take n (py_join [32] (w # v # vs)) = py_join [32] (w # ws') @ [32]"
          by (simp add: py_join_Cons)
        with ok' show ?thesis by blast
      qed
    qed
  qed
qed

lemma dropWhile_rev_last: "xs \<noteq> [] \<Longrightarrow> \<not> P (last xs) \<Longrightarrow> dropWhile P (rev xs) = rev xs"
  by (cases xs rule: rev_cases) auto

lemma dropWhile_hd: "xs \<noteq> [] \<Longrightarrow> \<not> P (hd xs) \<Longrightarrow> dropWhile P xs = xs"
  by (cases xs) auto

lemma py_strip_id:
  "s \<noteq> [] \<Longrightarrow> \<not> is_space (hd s) \<Longrightarrow> \<not> is_space (last s) \<Longrightarrow> py_strip s = s"
  by (simp add: py_strip_def dropWhile_hd dropWhile_rev_last)

lemma py_strip_trailing_space:
  "s \<noteq> [] \<Longrightarrow> \<not> is_space (hd s) \<Longrightarrow> \<not> is_space (last s) \<Longrightarrow> py_strip (s @ [32]) = s"
  by (simp add: py_strip_def dropWhile_hd dropWhile_rev_last)

lemma py_strip_py_join: "words_ok ws \<Longrightarrow> py_strip (py_join [32] ws) = py_join [32] ws"
proof (cases "ws = []")
  case True
  then show ?thesis by (simp add: py_strip_def)
next
  case False
  assume "words_ok ws"
  from py_join_ends [OF this False] show ?thesis by (simp add: py_strip_id)
qed

lemma py_strip_set: "set (py_strip s) \<subseteq> set s"
  by (auto simp: py_strip_def dest!: set_dropWhileD)

lemma py_strip_length: "length (py_strip s) \<le> length s"
proof -
  have "length (py_strip s) \<le> length (dropWhile is_space s)"
    unfolding py_strip_def using length_dropWhile_le [of is_space "rev (dropWhile is_space s)"]
    by simp
  also have "\<dots> \<le> length s" by (rule length_dropWhile_le)
  finally show ?thesis .
qed

lemma sanitize_words:
  "\<exists>ws. words_ok ws \<and> py_strip (take n (py_join [32] (py_split s))) = py_join [32] ws"
proof -
  from take_py_join [OF py_split_words_ok, of n s] obtain ws' where ok: "words_ok ws'" and
    alt: "take n (py_join [32] (py_split s)) = py_join [32] ws'
      \<or> (ws' \<noteq> [] \<and> take n (py_join [32] (py_split s)) = py_join [32] ws' @ [32])"
    by blast
  from alt have "py_strip (take n (py_join [32] (py_split s))) = py_join [32] ws'"
  proof
    assume "take n (py_join [32] (py_split s)) = py_join [32] ws'"
    with ok show ?thesis by (simp add: py_strip_py_join)
  next
    assume a: "ws' \<noteq> [] \<and> take n (py_join [32] (py_split s)) = py_join [32] ws' @ [32]"
    with py_join_ends [OF ok] show ?thesis by (simp add: py_strip_trailing_space)
  qed
  with ok show ?thesis by blast
qed

lemma space_run_append:
  "space_run (xs @ ys) \<longleftrightarrow>
     space_run xs \<or> space_run ys \<or> (xs \<noteq> [] \<and> ys \<noteq> [] \<and> is_space (last xs) \<and> is_space (hd ys))"
proof (induction xs rule: space_run.induct)
  case 1
  then show ?case by simp
next
  case (2 a)
  then show ?case by (cases ys) auto
next
  case (3 a b cs)
  then show ?case by auto
qed

lemma space_run_word: "list_all (\<lambda>c. \<not> is_space c) w \<Longrightarrow> \<not> space_run w"
  by (induction w rule: space_run.induct) auto

lemma space_run_py_join: "words_ok ws \<Longrightarrow> \<not> space_run (py_join [32] ws)"
proof (induction "[32::nat]" ws rule: py_join.induct)
  case 1
  then show ?case by simp
next
  case (2 w)
  then show ?case by (simp add: words_ok_def space_run_word)
next
  case (3 w v vs)
  then have w: "w \<noteq> []" "list_all (\<lambda>c. \<not> is_space c) w" and rest: "words_ok (v # vs)"
    by (auto simp: words_ok_def)
  from py_join_ends [OF rest] have e: "py_join [32] (v # vs) \<noteq> []"
    "\<not> is_space (hd (py_join [32] (v # vs)))" by auto
  then obtain d ds where j: "py_join [32] (v # vs) = d # ds" and d: "\<not> is_space d"
    by (cases "py_join [32] (v # vs)") auto
  from "3.hyps" [OF rest] have nr: "\<not> space_run (d # ds)" by (simp add: j)
  have "\<not> space_run (32 # d # ds)" using d nr by simp
  with w list_all_hd_last [OF w] space_run_word [OF w(2)]
  have "\<not> space_run (w @ 32 # d # ds)" by (simp add: space_run_append)
  then show ?case using j by simp
qed

lemma space_run_index:
  "Suc i < length s \<Longrightarrow> is_space (s ! i) \<Longrightarrow> is_space (s ! Suc i) \<Longrightarrow> space_run s"
proof (induction s arbitrary: i rule: space_run.induct)
  case (3 a b cs)
  then show ?case by (cases i) auto
qed auto

lemma scrub_map:
  "foldl (\<lambda>f ch. replace_char ch 95 f) s invalid_chars =
   map (\<lambda>c. if c \<in> set invalid_chars then 95 else c) s"
  by (simp add: invalid_chars_def replace_char_def)


lemma sanitize_filename_chars:
  "list_all (\<lambda>c. is_ascii c \<and> c \<notin> set invalid_chars) (sanitize_filename nfkd s)"
proof -
  define f3 where "f3 = foldl (\<lambda>f ch. replace_char ch 95 f) (encode_ascii_ignore (nfkd s)) invalid_chars"
  have f3: "\<forall>c\<in>set f3. is_ascii c \<and> c \<notin> set invalid_chars"
    unfolding f3_def scrub_map by (auto simp: encode_ascii_ignore_def is_ascii_def invalid_chars_def)
  have "set (sanitize_filename nfkd s) \<subseteq> set (py_join [32] (py_split f3))"
    unfolding sanitize_filename_def Let_def f3_def [symmetric]
    using py_strip_set set_take_subset by fast
  also have "\<dots> \<subseteq> insert 32 (set f3)"
    using py_join_set [of "[32]" "py_split f3"] py_split_set [of _ f3] by auto
  finally have "set (sanitize_filename nfkd s) \<subseteq> insert 32 (set f3)" .
  moreover have "is_ascii 32 \<and> 32 \<notin> set invalid_chars"
    by (simp add: is_ascii_def invalid_chars_def)
  ultimately show ?thesis using f3 unfolding list_all_iff by blast
qed

lemma sanitize_filename_words:
  "\<exists>ws. words_ok ws \<and> sanitize_filename nfkd s = py_join [32] ws"
  unfolding sanitize_filename_def Let_def by (rule sanitize_words)

lemma sanitize_filename_length: "length (sanitize_filename nfkd s) \<le> 200"
proof -
  have "length (sanitize_filename nfkd s) \<le> length (take 200 (py_join [32] (py_split
      (foldl (\<lambda>f ch. replace_char ch 95 f) (encode_ascii_ignore (nfkd s)) invalid_chars))))"
    unfolding sanitize_filename_def Let_def by (rule py_strip_length)
  then show ?thesis by simp
qed

lemma sanitize_filename_fixpoint:
  assumes nfkd: "nfkd r = r"
    and chars: "list_all (\<lambda>c. is_ascii c \<and> c \<notin> set invalid_chars) r"
    and ws: "words_ok ws" "r = py_join [32] ws"
    and len: "length r \<le> 200"
  shows "sanitize_filename nfkd r = r"
proof -
  from chars have "encode_ascii_ignore r = r"
    by (simp add: encode_ascii_ignore_def list_all_iff)
  moreover from chars have "foldl (\<lambda>f ch. replace_char ch 95 f) r invalid_chars = r"
    unfolding scrub_map by (simp add: list_all_iff map_idI)
  moreover from ws have "py_join [32] (py_split r) = r" by (simp add: py_split_py_join)
  moreover from len have "take 200 r = r" by simp
  moreover from ws have "py_strip r = r" by (simp add: py_strip_py_join)
  ultimately show ?thesis by (simp add: sanitize_filename_def nfkd)
qed

text \<open>
  Claim C7. The result of \<^verbatim>\<open>sanitize_filename\<close> on any string has only ASCII characters,
  none of the characters \<^verbatim>\<open>< > : " / \ | ? *\<close>, at most 200 characters, no whitespace at
  its start or end and no two whitespace characters in a row; and, NFKD normalisation
  leaving ASCII strings as they are, sanitising it again returns it unchanged.
\<close>

theorem sanitize_filename_safe:
  "list_all is_ascii (sanitize_filename nfkd s)
    \<and> list_all (\<lambda>c. c \<notin> set invalid_chars) (sanitize_filename nfkd s)
    \<and> length (sanitize_filename nfkd s) \<le> 200
    \<and> (sanitize_filename nfkd s \<noteq> [] \<longrightarrow>
          \<not> is_space (hd (sanitize_filename nfkd s)) \<and> \<not> is_space (last (sanitize_filename nfkd s)))
    \<and> \<not> (\<exists>i. Suc i < length (sanitize_filename nfkd s)
            \<and> is_space (sanitize_filename nfkd s ! i) \<and> is_space (sanitize_filename nfkd s ! Suc i))
    \<and> ((\<forall>t. list_all is_ascii t \<longrightarrow> nfkd t = t) \<longrightarrow>
          sanitize_filename nfkd (sanitize_filename nfkd s) = sanitize_filename nfkd s)"
proof -
  define r where "r = sanitize_filename nfkd s"
  have chars: "list_all (\<lambda>c. is_ascii c \<and> c \<notin> set invalid_chars) r"
    unfolding r_def by (rule sanitize_filename_chars)
  then have ascii: "list_all is_ascii r" and valid: "list_all (\<lambda>c. c \<notin> set invalid_chars) r"
    by (simp_all add: list_all_iff)
  obtain ws where ws: "words_ok ws" "r = py_join [32] ws"
    unfolding r_def using sanitize_filename_words by blast
  have len: "length r \<le> 200" unfolding r_def by (rule sanitize_filename_length)
  have ends: "r \<noteq> [] \<longrightarrow> \<not> is_space (hd r) \<and> \<not> is_space (last r)"
    using py_join_ends [OF ws(1)] ws(2) by (cases "ws = []") auto
  have "\<not> space_run r" using space_run_py_join [OF ws(1)] ws(2) by simp
  then have norun: "\<not> (\<exists>i. Suc i < length r \<and> is_space (r ! i) \<and> is_space (r ! Suc i))"
    using space_run_index by blast
  have "sanitize_filename nfkd r = r" if "\<forall>t. list_all is_ascii t \<longrightarrow> nfkd t = t"
  proof -
    from that ascii have "nfkd r = r" by blast
    then show ?thesis using chars ws len by (rule sanitize_filename_fixpoint)
  qed
  with ascii valid len ends norun show ?thesis unfolding r_def by blast
qed

lemma nfkd_sample_ascii: "list_all is_ascii t \<Longrightarrow> nfkd_sample t = t"
  by (induction t) (auto simp: nfkd_sample_def is_ascii_def)

lemma py_split_Cons:
  "py_split (c # s) =
     (if is_space c then py_split s
      else (c # takeWhile (\<lambda>x. \<not> is_space x) s) # py_split (dropWhile (\<lambda>x. \<not> is_space x) s))"
  by (simp add: py_split_space py_split_unfold_Cons)

lemma sanitize_example:
  "sanitize_filename nfkd_sample (py ''  Caf'' @ [233, 9, 10] @ py ''<live>: a/b  '')
     = py ''Cafe _live__ a_b''"
  by (simp add: sanitize_filename_def nfkd_sample_def encode_ascii_ignore_def is_ascii_def
      replace_char_def invalid_chars_def py_split_Cons is_space_def py_strip_def py_def)

theorem sanitize_filename_safe_witness:
  "sanitize_filename nfkd_sample (py ''  Caf'' @ [233, 9, 10] @ py ''<live>: a/b  '')
     = py ''Cafe _live__ a_b''
   \<and> sanitize_filename nfkd_sample (py ''Cafe _live__ a_b'') = py ''Cafe _live__ a_b''
   \<and> list_all is_ascii (py ''Cafe _live__ a_b'')
   \<and> length (py ''Cafe _live__ a_b'') \<le> 200"
  using sanitize_filename_safe [of nfkd_sample "py ''  Caf'' @ [233, 9, 10] @ py ''<live>: a/b  ''"]
    nfkd_sample_ascii
  unfolding sanitize_example by simp

section \<open>URL validation\<close>

lemma match_at_nonempty: "match_at lits s = Some g \<Longrightarrow> g \<noteq> []"
  by (induction lits) (auto split: if_splits)

lemma re_search_nonempty: "re_search lits s = Some g \<Longrightarrow> g \<noteq> []"
  by (induction s) (auto split: option.splits dest: match_at_nonempty)

lemma first_match_nonempty: "first_match ps s = Some g \<Longrightarrow> g \<noteq> []"
  by (induction ps) (auto split: option.splits dest: re_search_nonempty)

lemma match_at_no_prefix: "list_all (\<lambda>lit. \<not> prefix lit s) lits \<Longrightarrow> match_at lits s = None"
  by (induction lits) auto

lemma re_search_skip:
  "list_all (\<lambda>lit. \<not> occurs_within lit p rest) lits \<Longrightarrow>
   re_search lits (p @ rest) = re_search lits rest"
proof (induction p)
  case Nil
  then show ?case by simp
next
  case (Cons c p)
  then have "list_all (\<lambda>lit. \<not> prefix lit (c # p @ rest)) lits"
    and "list_all (\<lambda>lit. \<not> occurs_within lit p rest) lits"
    by (auto simp: list_all_iff)
  with Cons.IH show ?case by (simp add: match_at_no_prefix)
qed

lemma re_search_hit:
  assumes "g \<noteq> []" "list_all (\<lambda>c. \<not> terminator c) g" "s = [] \<or> terminator (hd s)"
  shows "re_search (lit # lits) (lit @ g @ s) = Some g"
proof -
  from assms(3) have "s = [] \<or> \<not> \<not> terminator (hd s)" by simp
  from takeWhile_dropWhile_run [OF assms(2) this]
  have tw: "takeWhile (\<lambda>c. \<not> terminator c) (g @ s) = g" by simp
  with assms(1) have "match_at (lit # lits) (lit @ g @ s) = Some g" by simp
  moreover from assms(1) obtain c cs where "lit @ g @ s = c # cs" by (cases "lit @ g @ s") auto
  ultimately show ?thesis by simp
qed

lemma re_search_first:
  assumes "list_all (\<lambda>l. \<not> occurs_within l p (lit @ g @ s)) (lit # lits)"
    "g \<noteq> []" "list_all (\<lambda>c. \<not> terminator c) g" "s = [] \<or> terminator (hd s)"
  shows "re_search (lit # lits) (p @ lit @ g @ s) = Some g"
  using re_search_skip [OF assms(1)] re_search_hit [OF assms(2-4)] by simp


lemma re_search_id_at:
  assumes "id_at (lit # lits) lit url p g s"
  shows "re_search (lit # lits) url = Some g"
  using assms re_search_first [where lit = lit and lits = lits and p = p and g = g and s = s]
  by (simp add: id_at_def)

lemma is_valid_iff:
  "is_valid_youtube_url url \<longleftrightarrow> extract_video_id url \<noteq> None \<or> extract_playlist_id url \<noteq> None"
proof -
  have v: "truthy (extract_video_id url) \<longleftrightarrow> extract_video_id url \<noteq> None"
    by (cases "extract_video_id url")
      (auto simp: extract_video_id_def dest: first_match_nonempty)
  have p: "truthy (extract_playlist_id url) \<longleftrightarrow> extract_playlist_id url \<noteq> None"
    by (cases "extract_playlist_id url")
      (auto simp: extract_playlist_id_def dest: re_search_nonempty)
  show ?thesis
    unfolding is_valid_youtube_url_def Let_def using v p by auto
qed

text \<open>
  Claim C8, as amended. \<^verbatim>\<open>is_valid_youtube_url\<close> is true exactly when
  \<^verbatim>\<open>extract_video_id\<close> or \<^verbatim>\<open>extract_playlist_id\<close> returns a value, so a URL that
  matches neither is invalid. For a URL whose first occurrence of
  \<^verbatim>\<open>youtube.com/watch?v=\<close> or \<^verbatim>\<open>youtu.be/\<close> is \<^verbatim>\<open>youtube.com/watch?v=\<close> followed by an
  identifier and then the end or a terminator, \<^verbatim>\<open>extract_video_id\<close> returns that
  identifier; for a URL whose first occurrence of \<^verbatim>\<open>list=\<close> is followed by an identifier
  and then the end or a terminator, \<^verbatim>\<open>extract_playlist_id\<close> returns it; a URL with both
  yields both and is valid. The witness takes the identifiers abc123 and PL123.
\<close>

theorem url_validation:
  "(is_valid_youtube_url url \<longleftrightarrow>
      extract_video_id url \<noteq> None \<or> extract_playlist_id url \<noteq> None)
   \<and> (extract_video_id url = None \<and> extract_playlist_id url = None
        \<longrightarrow> \<not> is_valid_youtube_url url)
   \<and> (id_at [py ''youtube.com/watch?v='', py ''youtu.be/''] (py ''youtube.com/watch?v='')
          url p vid s
        \<longrightarrow> extract_video_id url = Some vid)
   \<and> (id_at [py ''list=''] (py ''list='') url p' pid s'
        \<longrightarrow> extract_playlist_id url = Some pid)
   \<and> (id_at [py ''youtube.com/watch?v='', py ''youtu.be/''] (py ''youtube.com/watch?v='')
          url p vid s
        \<and> id_at [py ''list=''] (py ''list='') url p' pid s'
        \<longrightarrow> extract_video_id url = Some vid \<and> extract_playlist_id url = Some pid
            \<and> is_valid_youtube_url url)"
proof -
  have v: "extract_video_id url = Some vid"
    if "id_at [py ''youtube.com/watch?v='', py ''youtu.be/''] (py ''youtube.com/watch?v='')
          url p vid s"
    using re_search_id_at [OF that] by (simp add: extract_video_id_def video_patterns_def)
  have l: "extract_playlist_id url = Some pid"
    if "id_at [py ''list=''] (py ''list='') url p' pid s'"
    using re_search_id_at [OF that] by (simp add: extract_playlist_id_def)
  from v l show ?thesis using is_valid_iff [of url] by auto
qed

theorem url_validation_witness:
  "extract_video_id (py ''https://www.youtube.com/watch?v=abc123&list=PL123'') = Some (py ''abc123'')
   \<and> extract_playlist_id (py ''https://www.youtube.com/watch?v=abc123&list=PL123'')
        = Some (py ''PL123'')
   \<and> is_valid_youtube_url (py ''https://www.youtube.com/watch?v=abc123&list=PL123'')
   \<and> \<not> is_valid_youtube_url (py ''https://example.com/'')"
proof -
  have a: "id_at [py ''youtube.com/watch?v='', py ''youtu.be/''] (py ''youtube.com/watch?v='')
      (py ''https://www.youtube.com/watch?v=abc123&list=PL123'')
      (py ''https://www.'') (py ''abc123'') (py ''&list=PL123'')"
    by (simp add: id_at_def py_def terminator_def)
  have b: "id_at [py ''list=''] (py ''list='')
      (py ''https://www.youtube.com/watch?v=abc123&list=PL123'')
      (py ''https://www.youtube.com/watch?v=abc123&'') (py ''PL123'') []"
    by (simp add: id_at_def py_def terminator_def)
  have c: "extract_video_id (py ''https://example.com/'') = None
      \<and> extract_playlist_id (py ''https://example.com/'') = None"
    by (simp add: extract_video_id_def extract_playlist_id_def video_patterns_def py_def)
  from a b c
    url_validation [of "py ''https://www.youtube.com/watch?v=abc123&list=PL123''"
      "py ''https://www.''" "py ''abc123''" "py ''&list=PL123''"
      "py ''https://www.youtube.com/watch?v=abc123&''" "py ''PL123''" "[]"]
    url_validation [of "py ''https://example.com/''"]
  show ?thesis by blast
qed

text \<open>
  The claim as first stated fails: a URL on another host contains
  \<^verbatim>\<open>watch?v=abc123\<close>, and \<^verbatim>\<open>extract_video_id\<close> returns nothing for it, because the
  pattern asks for \<^verbatim>\<open>youtube.com/\<close> before \<^verbatim>\<open>watch?v=\<close>.
\<close>

theorem extract_video_id_host_counterexample:
  "py_in (py ''watch?v=abc123'') (py ''https://example.com/watch?v=abc123'')
   \<and> extract_video_id (py ''https://example.com/watch?v=abc123'') = None
   \<and> \<not> is_valid_youtube_url (py ''https://example.com/watch?v=abc123'')"
  by (simp add: is_valid_youtube_url_def extract_video_id_def extract_playlist_id_def
      video_patterns_def py_def)

section \<open>The progress hook\<close>



lemma run_hook_progress_status:
  "list_all (\<lambda>u. u_progress u \<noteq> None \<and> u_status u = None) (run_hook lp ds)"
proof (induction ds arbitrary: lp)
  case Nil
  show ?case by simp
next
  case (Cons d ds)
  show ?case
  proof (cases d)
    case (Downloading r)
    with Cons show ?thesis by (cases r) (auto simp: no_args_def)
  next
    case Finished
    with Cons show ?thesis by (auto simp: no_args_def)
  next
    case Other
    with Cons show ?thesis by auto
  qed
qed










section \<open>The request handlers\<close>

lemma valid_a: "is_valid_youtube_url (py ''https://youtu.be/abc123'')"
  by (simp add: is_valid_youtube_url_def extract_video_id_def video_patterns_def py_def terminator_def)

lemma valid_b: "is_valid_youtube_url (py ''https://youtube.com/playlist?list=PL123'')"
  by (simp add: is_valid_youtube_url_def extract_video_id_def extract_playlist_id_def
      video_patterns_def py_def terminator_def)

text \<open>
  Claim C9. Two requests to \<^verbatim>\<open>POST /api/info\<close>, or to \<^verbatim>\<open>POST /api/download\<close>, that
  differ only in the field \<^verbatim>\<open>is_playlist\<close> get the same result (the same response or
  error, the same registry and the same scheduled task), and a successful response of
  \<^verbatim>\<open>POST /api/info\<close> is a playlist response exactly when the URL contains \<^verbatim>\<open>list=\<close>.
\<close>

theorem is_playlist_never_read:
  "get_video_info lookup_video lookup_playlist (request\<lparr>dr_is_playlist := b\<rparr>)
     = get_video_info lookup_video lookup_playlist request
   \<and> download_video tasks new_id (request\<lparr>dr_is_playlist := b\<rparr>)
     = download_video tasks new_id request
   \<and> (\<forall>response. get_video_info lookup_video lookup_playlist request = Inr response
        \<longrightarrow> vr_is_playlist response = py_in (py ''list='') (dr_url request))"
  by (auto simp: get_video_info_def download_video_def Let_def split: option.splits prod.splits if_splits)

theorem is_playlist_never_read_witness:
  "get_video_info (\<lambda>url. Some sample_video) (\<lambda>url. (Some (py ''Mix''), [sample_video]))
      \<lparr>dr_url = py ''https://youtu.be/abc123'', dr_is_playlist = True\<rparr>
     = Inr \<lparr>vr_is_playlist = False, vr_videos = [sample_video], vr_playlist_title = None\<rparr>
   \<and> get_video_info (\<lambda>url. Some sample_video) (\<lambda>url. (Some (py ''Mix''), [sample_video]))
      \<lparr>dr_url = py ''https://youtube.com/playlist?list=PL123'', dr_is_playlist = False\<rparr>
     = Inr \<lparr>vr_is_playlist = True, vr_videos = [sample_video],
            vr_playlist_title = Some (py ''Mix'')\<rparr>
   \<and> download_video Map.empty (py ''t1'')
        \<lparr>dr_url = py ''https://youtu.be/abc123'', dr_is_playlist = True\<rparr>
     = download_video Map.empty (py ''t1'')
        \<lparr>dr_url = py ''https://youtu.be/abc123'', dr_is_playlist = False\<rparr>"
proof -
  have a: "\<not> py_in (py ''list='') (py ''https://youtu.be/abc123'')"
    by (simp add: py_def)
  have b: "py_in (py ''list='') (py ''https://youtube.com/playlist?list=PL123'')"
    by (simp add: py_def)
  show ?thesis
    using is_playlist_never_read [where lookup_video = "\<lambda>url. Some sample_video"
        and lookup_playlist = "\<lambda>url. (Some (py ''Mix''), [sample_video])"
        and request = "\<lparr>dr_url = py ''https://youtu.be/abc123'', dr_is_playlist = False\<rparr>"
        and b = True and tasks = Map.empty and new_id = "py ''t1''"]
    by (simp add: get_video_info_def valid_a valid_b a b)
qed

text \<open>
  Claim C6 does not hold for a negative file index: the handler tests only
  \<^verbatim>\<open>file_index >= len(files)\<close>. For a completed task with one file, index -2 raises an
  \<^verbatim>\<open>IndexError\<close> that nothing catches (no 404 response), and index -1 serves the last
  file.
\<close>

theorem download_single_negative_index:
  "download_single_from_playlist done_task (\<lambda>p. True) (py ''t1'') (- 2) = Inl IndexError
   \<and> download_single_from_playlist done_task (\<lambda>p. True) (py ''t1'') (- 1)
       = Inr (\<lparr>fr_path = py ''downloads/Song.mp3'', fr_filename = py ''Song.mp3'',
                fr_media_type = py ''audio/mpeg''\<rparr>,
              CleanupFile (py ''downloads/Song.mp3'') 30)"
  by (simp add: download_single_from_playlist_def done_task_def get_task_def get_task_files_def
      py_index_def path_name_def encode_ascii_ignore_def is_ascii_def py_def Let_def)

text \<open>For an index that is not negative the handler does what the claim says.\<close>

lemma download_single_from_playlist_in_range:
  assumes "0 \<le> file_index"
  shows "download_single_from_playlist tasks on_disk task_id file_index =
     (if r_status (get_task tasks task_id) \<noteq> COMPLETED
      then Inl (HTTPException 400 (py ''Task not completed''))
      else if \<not> file_index < int (length (get_task_files tasks task_id))
           \<or> \<not> on_disk (get_task_files tasks task_id ! nat file_index)
      then Inl (HTTPException 404 (py ''File not found''))
      else Inr (\<lparr>fr_path = get_task_files tasks task_id ! nat file_index,
                 fr_filename =
                   (if encode_ascii_ignore (path_name (get_task_files tasks task_id ! nat file_index)) = []
                    then py ''audio_'' @ str_int file_index @ py ''.mp3''
                    else encode_ascii_ignore (path_name (get_task_files tasks task_id ! nat file_index))),
                 fr_media_type = py ''audio/mpeg''\<rparr>,
                CleanupFile (get_task_files tasks task_id ! nat file_index) 30))"
  using assms by (auto simp: download_single_from_playlist_def py_index_def Let_def)

section \<open>The download workflows\<close>

lemma run_updates_Nil [simp]: "run_updates tasks task_id [] = tasks"
  by (simp add: run_updates_def)

lemma run_updates_Cons [simp]:
  "run_updates tasks task_id (u # us) = run_updates (update_task tasks task_id u) task_id us"
  by (simp add: run_updates_def)

lemma run_updates_append:
  "run_updates tasks task_id (us @ vs) = run_updates (run_updates tasks task_id us) task_id vs"
  by (simp add: run_updates_def)

lemma final_file_nonempty [simp]: "final_file cfg filename \<noteq> []"
  by (simp add: final_file_def py_def)

lemma run_hook_no_completed:
  "list_all (\<lambda>u. u_completed_videos u = None) (run_hook lp ds)"
proof (induction ds arbitrary: lp)
  case Nil
  show ?case by simp
next
  case (Cons d ds)
  show ?case
  proof (cases d)
    case (Downloading r)
    with Cons show ?thesis by (cases r) (auto simp: no_args_def)
  next
    case Finished
    with Cons show ?thesis by (auto simp: no_args_def)
  next
    case Other
    with Cons show ?thesis by auto
  qed
qed

lemma playlist_item_effect:
  assumes "playlist_item cfg nfkd ie n idx c = (c', ups)" and "n \<noteq> 0"
    and "tasks task_id = Some t"
  shows "\<exists>t'. run_updates tasks task_id ups task_id = Some t'
    \<and> c' = (if item_succeeds ie then c + 1 else c)
    \<and> t_completed_videos t' = (if item_succeeds ie then c + 1 else t_completed_videos t)"
proof (cases "ie_video_info ie")
  case None
  with assms show ?thesis by (simp add: playlist_item_def item_succeeds_def)
next
  case (Some video_info)
  define msg where "msg = no_args\<lparr>u_message :=
      Some (py ''Downloading '' @ str_int (int idx + 1) @ py ''/'' @ str_int n
            @ py '': '' @ take 50 (vi_title video_info) @ py ''...'')\<rparr>"
  from update_task_known [of tasks task_id t msg] assms(3) obtain t1 where
    t1: "update_task tasks task_id msg task_id = Some t1"
      "t_completed_videos t1 = t_completed_videos t"
    by (auto simp: msg_def no_args_def)
  show ?thesis
  proof (cases "item_succeeds ie")
    case False
    with Some assms(1) have "c' = c" "ups = [msg]"
      by (auto simp: playlist_item_def item_succeeds_def Let_def msg_def
          split: outcome.splits bool.splits if_splits)
    with t1 False show ?thesis by simp
  next
    case True
    define upd where "upd = no_args\<lparr>u_progress := Some (of_int (c + 1) / of_int n * 100),
        u_completed_videos := Some (c + 1),
        u_file_path := Some (final_file cfg (sanitize_filename nfkd (vi_title video_info)))\<rparr>"
    from True Some assms(1,2) have r: "c' = c + 1" "ups = [msg, upd]"
      by (auto simp: playlist_item_def item_succeeds_def Let_def msg_def upd_def)
    from update_task_known [of "update_task tasks task_id msg" task_id t1 upd] t1(1)
    obtain t2 where "update_task (update_task tasks task_id msg) task_id upd task_id = Some t2"
      "t_completed_videos t2 = c + 1"
      by (auto simp: upd_def)
    with r True show ?thesis by simp
  qed
qed

lemma playlist_item_updates:
  assumes "playlist_item cfg nfkd ie n idx c = (c', ups)"
  shows "c \<le> c' \<and> c' \<le> c + 1
    \<and> list_all (\<lambda>u. u_status u = None
          \<and> (case u_completed_videos u of None \<Rightarrow> True | Some x \<Rightarrow> x \<le> c + 1)) ups"
  using assms
  by (auto simp: playlist_item_def Let_def no_args_def
      split: option.splits outcome.splits bool.splits if_splits)


lemma playlist_loop_effect:
  assumes "n \<noteq> 0" and "tasks task_id = Some t"
    and "playlist_loop cfg nfkd env n idx c vids = (c', ups, urls)"
  shows "\<exists>t'. run_updates tasks task_id ups task_id = Some t'
    \<and> c' = c + int (length (filter (\<lambda>i. item_succeeds (env i)) [idx..<idx + length vids]))
    \<and> t_completed_videos t' = (if c' = c then t_completed_videos t else c')
    \<and> urls = map watch_url vids"
  using assms(2,3)
proof (induction vids arbitrary: idx c tasks t c' ups urls)
  case Nil
  then show ?case by simp
next
  case (Cons v rest)
  obtain c1 ups1 where item: "playlist_item cfg nfkd (env idx) n idx c = (c1, ups1)"
    by (cases "playlist_item cfg nfkd (env idx) n idx c")
  obtain c2 more urls' where loop: "playlist_loop cfg nfkd env n (Suc idx) c1 rest = (c2, more, urls')"
    by (cases "playlist_loop cfg nfkd env n (Suc idx) c1 rest")
  from Cons.prems(2) item loop have res: "c' = c2" "ups = ups1 @ more" "urls = watch_url v # urls'"
    by (simp_all add: watch_url_def)
  from playlist_item_effect [where tasks = tasks and task_id = task_id, OF item assms(1) Cons.prems(1)]
  obtain t1 where
    t1: "run_updates tasks task_id ups1 task_id = Some t1"
    and c1: "c1 = (if item_succeeds (env idx) then c + 1 else c)"
    and k1: "t_completed_videos t1 = (if item_succeeds (env idx) then c + 1 else t_completed_videos t)"
    by blast
  from Cons.IH [where tasks = "run_updates tasks task_id ups1", OF t1 loop] obtain t' where
    t': "run_updates (run_updates tasks task_id ups1) task_id more task_id = Some t'"
    and c2: "c2 = c1 + int (length (filter (\<lambda>i. item_succeeds (env i)) [Suc idx..<Suc idx + length rest]))"
    and k2: "t_completed_videos t' = (if c2 = c1 then t_completed_videos t1 else c2)"
    and u2: "urls' = map watch_url rest"
    by blast
  have upt: "[idx..<idx + length (v # rest)] = idx # [Suc idx..<Suc idx + length rest]"
    by (simp add: upt_rec)
  have "run_updates tasks task_id ups task_id = Some t'"
    using t' res(2) by (simp add: run_updates_append)
  moreover have "c' = c + int (length (filter (\<lambda>i. item_succeeds (env i)) [idx..<idx + length (v # rest)]))"
    unfolding upt using c1 c2 res(1) by simp
  moreover have "t_completed_videos t' = (if c' = c then t_completed_videos t else c')"
    using c1 c2 k1 k2 res(1) by (auto split: if_splits)
  moreover have "urls = map watch_url (v # rest)" using u2 res(3) by simp
  ultimately show ?case by blast
qed

lemma playlist_loop_updates:
  assumes "playlist_loop cfg nfkd env n idx c vids = (c', ups, urls)"
  shows "c \<le> c' \<and> c' \<le> c + int (length vids)
    \<and> list_all (\<lambda>u. u_status u = None
          \<and> (case u_completed_videos u of None \<Rightarrow> True | Some x \<Rightarrow> x \<le> c + int (length vids))) ups"
  using assms
proof (induction vids arbitrary: idx c c' ups urls)
  case Nil
  then show ?case by simp
next
  case (Cons v rest)
  obtain c1 ups1 where item: "playlist_item cfg nfkd (env idx) n idx c = (c1, ups1)"
    by (cases "playlist_item cfg nfkd (env idx) n idx c")
  obtain c2 more urls' where loop: "playlist_loop cfg nfkd env n (Suc idx) c1 rest = (c2, more, urls')"
    by (cases "playlist_loop cfg nfkd env n (Suc idx) c1 rest")
  from Cons.prems item loop have res: "c' = c2" "ups = ups1 @ more" by simp_all
  from playlist_item_updates [OF item] have i: "c \<le> c1" "c1 \<le> c + 1"
    "list_all (\<lambda>u. u_status u = None
        \<and> (case u_completed_videos u of None \<Rightarrow> True | Some x \<Rightarrow> x \<le> c + 1)) ups1"
    by auto
  from Cons.IH [OF loop] have l: "c1 \<le> c2" "c2 \<le> c1 + int (length rest)"
    "list_all (\<lambda>u. u_status u = None
        \<and> (case u_completed_videos u of None \<Rightarrow> True | Some x \<Rightarrow> x \<le> c1 + int (length rest))) more"
    by auto
  have "list_all (\<lambda>u. u_status u = None
      \<and> (case u_completed_videos u of None \<Rightarrow> True | Some x \<Rightarrow> x \<le> c + int (length (v # rest)))) ups1"
    using i(3) by (auto simp: list_all_iff split: option.splits)
  moreover have "list_all (\<lambda>u. u_status u = None
      \<and> (case u_completed_videos u of None \<Rightarrow> True | Some x \<Rightarrow> x \<le> c + int (length (v # rest)))) more"
    using l(3) i(2) by (auto simp: list_all_iff split: option.splits)
  ultimately show ?case using i l res by simp
qed

text \<open>
  Claim C2. For a playlist download over any list of video ids, on a task that is in the
  registry: every id is looked up, in order, whatever happens to the items before it; if
  at least one item succeeds, the task ends with status \<^verbatim>\<open>completed\<close>, progress 100, the
  message "Completed! Downloaded k/n videos" and completed count k, where k is the number
  of items that succeed and n the number of ids; if none succeeds, it ends with status
  \<^verbatim>\<open>failed\<close> and the message "No videos were downloaded successfully".
\<close>

theorem playlist_outcome:
  assumes "tasks task_id = Some t"
  shows "snd (download_playlist cfg nfkd env video_ids) = map watch_url video_ids
    \<and> (\<exists>t'. run_updates tasks task_id (fst (download_playlist cfg nfkd env video_ids)) task_id
              = Some t'
         \<and> (0 < successes env (length video_ids) \<longrightarrow>
               t_status t' = COMPLETED \<and> t_progress t' = 100
               \<and> t_message t' =
                   py ''Completed! Downloaded '' @ str_int (int (successes env (length video_ids)))
                   @ py ''/'' @ str_int (int (length video_ids)) @ py '' videos''
               \<and> t_completed_videos t' = int (successes env (length video_ids)))
         \<and> (successes env (length video_ids) = 0 \<longrightarrow>
               t_status t' = FAILED
               \<and> t_message t' = py ''No videos were downloaded successfully''))"
proof -
  define n where "n = int (length video_ids)"
  define k where "k = successes env (length video_ids)"
  obtain c ups urls where loop: "playlist_loop cfg nfkd env n 0 0 video_ids = (c, ups, urls)"
    by (cases "playlist_loop cfg nfkd env n 0 0 video_ids")
  define start where "start = no_args\<lparr>u_status := Some PROCESSING,
      u_message := Some (py ''Starting download of '' @ str_int n @ py '' videos...'')\<rparr>"
  define fin where "fin = (if c > 0
      then no_args\<lparr>u_status := Some COMPLETED,
             u_message := Some (py ''Completed! Downloaded '' @ str_int c
                                @ py ''/'' @ str_int n @ py '' videos''),
             u_progress := Some 100\<rparr>
      else no_args\<lparr>u_status := Some FAILED,
             u_message := Some (py ''No videos were downloaded successfully'')\<rparr>)"
  have dp: "download_playlist cfg nfkd env video_ids = ([start] @ ups @ [fin], urls)"
    using loop by (simp add: download_playlist_def n_def [symmetric] start_def fin_def)
  from update_task_known [of tasks task_id t start] assms obtain t1 where
    t1: "update_task tasks task_id start task_id = Some t1" by blast
  have eff: "\<exists>t2. run_updates (update_task tasks task_id start) task_id ups task_id = Some t2
      \<and> c = int k \<and> (c \<noteq> 0 \<longrightarrow> t_completed_videos t2 = c) \<and> urls = map watch_url video_ids"
  proof (cases "video_ids = []")
    case True
    with loop t1 show ?thesis by (simp add: k_def successes_def)
  next
    case False
    then have "n \<noteq> 0" by (simp add: n_def)
    from playlist_loop_effect [where tasks = "update_task tasks task_id start" and task_id = task_id,
        OF this t1 loop]
    show ?thesis
      by (auto simp: k_def successes_def)
  qed
  then obtain t2 where t2: "run_updates (update_task tasks task_id start) task_id ups task_id = Some t2"
    and ck: "c = int k" and comp: "c \<noteq> 0 \<longrightarrow> t_completed_videos t2 = c"
    and urls: "urls = map watch_url video_ids"
    by blast
  from update_task_known [of "run_updates (update_task tasks task_id start) task_id ups" task_id t2 fin] t2
  obtain t3 where t3: "update_task (run_updates (update_task tasks task_id start) task_id ups) task_id fin task_id = Some t3"
    and st: "t_status t3 = (case u_status fin of None \<Rightarrow> t_status t2 | Some s \<Rightarrow> s)"
    and pr: "t_progress t3 = (case u_progress fin of None \<Rightarrow> t_progress t2 | Some p \<Rightarrow> p)"
    and ms: "t_message t3 = (case u_message fin of None \<Rightarrow> t_message t2
                       | Some m \<Rightarrow> if m = [] then t_message t2 else m)"
    and cv: "t_completed_videos t3 =
        (case u_completed_videos fin of None \<Rightarrow> t_completed_videos t2 | Some c \<Rightarrow> c)"
    by blast
  have run: "run_updates tasks task_id (fst (download_playlist cfg nfkd env video_ids)) task_id = Some t3"
    using t3 by (simp add: dp run_updates_append)
  have pos: "0 < k \<longrightarrow> t_status t3 = COMPLETED \<and> t_progress t3 = 100
      \<and> t_message t3 = py ''Completed! Downloaded '' @ str_int (int k) @ py ''/'' @ str_int n @ py '' videos''
      \<and> t_completed_videos t3 = int k"
    using st pr ms cv comp ck by (auto simp: fin_def no_args_def py_def)
  have zero: "k = 0 \<longrightarrow> t_status t3 = FAILED
      \<and> t_message t3 = py ''No videos were downloaded successfully''"
    using st ms ck by (auto simp: fin_def no_args_def py_def)
  from run pos zero urls dp show ?thesis
    unfolding k_def n_def by auto
qed

theorem playlist_outcome_witness:
  "successes three_items (length [py ''a'', py ''b'', py ''c'']) = 2
   \<and> snd (download_playlist settings nfkd_sample three_items [py ''a'', py ''b'', py ''c''])
       = [watch_url (py ''a''), watch_url (py ''b''), watch_url (py ''c'')]
   \<and> (\<exists>t'. run_updates (snd (create_task Map.empty (py ''t1'') 3)) (py ''t1'')
             (fst (download_playlist settings nfkd_sample three_items [py ''a'', py ''b'', py ''c'']))
             (py ''t1'') = Some t'
          \<and> t_status t' = COMPLETED \<and> t_progress t' = 100
          \<and> t_message t' = py ''Completed! Downloaded 2/3 videos''
          \<and> t_completed_videos t' = 2)"
proof -
  have k: "successes three_items (length [py ''a'', py ''b'', py ''c'']) = 2"
    by (simp add: successes_def three_items_def item_succeeds_def)
  have s: "str_int 2 = py ''2''" "str_int 3 = py ''3''"
    by (simp_all add: str_int_def str_nat.simps py_def)
  have m: "py ''Completed! Downloaded '' @ py ''2'' @ py ''/'' @ py ''3'' @ py '' videos''
      = py ''Completed! Downloaded 2/3 videos''"
    by (simp add: py_def)
  have t: "snd (create_task Map.empty (py ''t1'') 3) (py ''t1'')
      = Some (the (snd (create_task Map.empty (py ''t1'') 3) (py ''t1'')))"
    by (simp add: create_task_def)
  from playlist_outcome [where tasks = "snd (create_task Map.empty (py ''t1'') 3)"
      and task_id = "py ''t1''" and cfg = settings and nfkd = nfkd_sample and env = three_items
      and video_ids = "[py ''a'', py ''b'', py ''c'']", OF t]
  show ?thesis unfolding k using s m by auto
qed

lemma run_updates_bound:
  assumes "tasks task_id = Some t" and "t_completed_videos t \<le> n"
    and "list_all (\<lambda>u. case u_completed_videos u of None \<Rightarrow> True | Some x \<Rightarrow> x \<le> n) us"
  shows "\<exists>t'. run_updates tasks task_id us task_id = Some t'
    \<and> t_total_videos t' = t_total_videos t \<and> t_completed_videos t' \<le> n"
  using assms
proof (induction us arbitrary: tasks t)
  case Nil
  then show ?case by simp
next
  case (Cons u us)
  from update_task_known [of tasks task_id t u] Cons.prems(1) obtain t1 where
    t1: "update_task tasks task_id u task_id = Some t1"
    and k1: "t_completed_videos t1 =
        (case u_completed_videos u of None \<Rightarrow> t_completed_videos t | Some c \<Rightarrow> c)"
    and n1: "t_total_videos t1 = t_total_videos t"
    by blast
  from k1 Cons.prems(2,3) have b1: "t_completed_videos t1 \<le> n"
    by (auto split: option.splits)
  from Cons.prems(3) have rest: "list_all (\<lambda>u. case u_completed_videos u of None \<Rightarrow> True
      | Some x \<Rightarrow> x \<le> n) us" by simp
  from Cons.IH [where tasks = "update_task tasks task_id u", OF t1 b1 rest] n1
  show ?case by simp
qed

lemma terminal_last:
  assumes "ups = first # mid @ [lst]" and "u_status first = Some PROCESSING"
    and "list_all (\<lambda>u. u_status u = None) mid"
    and "k < length ups" and "u_status (ups ! k) = Some COMPLETED \<or> u_status (ups ! k) = Some FAILED"
  shows "Suc k = length ups"
proof (rule ccontr)
  assume "Suc k \<noteq> length ups"
  with assms(1,4) have k: "k < Suc (length mid)" by simp
  show False
  proof (cases k)
    case 0
    with assms(1,2,5) show False by simp
  next
    case (Suc j)
    with k have "j < length mid" by simp
    with assms(1) Suc have "ups ! k = mid ! j" by (simp add: nth_append)
    moreover from assms(3) \<open>j < length mid\<close> have "u_status (mid ! j) = None"
      by (simp add: list_all_length)
    ultimately show False using assms(5) by simp
  qed
qed

lemma download_single_video_shape:
  "\<exists>first mid lst. download_single_video cfg nfkd env = first # mid @ [lst]
     \<and> u_status first = Some PROCESSING
     \<and> list_all (\<lambda>u. u_status u = None) mid
     \<and> list_all (\<lambda>u. case u_completed_videos u of None \<Rightarrow> True | Some x \<Rightarrow> x \<le> 1)
         (download_single_video cfg nfkd env)"
proof -
  define first where "first = no_args\<lparr>u_status := Some PROCESSING,
      u_message := Some (py ''Fetching video information...''), u_progress := Some 10\<rparr>"
  have hook: "list_all (\<lambda>u. u_status u = None) (run_hook 0 (se_events env))"
    "list_all (\<lambda>u. case u_completed_videos u of None \<Rightarrow> True | Some x \<Rightarrow> x \<le> 1)
       (run_hook 0 (se_events env))"
    using run_hook_progress_status [of 0 "se_events env"] run_hook_no_completed [of 0 "se_events env"]
    by (auto simp: list_all_iff)
  have "\<exists>mid lst. download_single_video cfg nfkd env = first # mid @ [lst]
      \<and> (mid = [] \<or> mid = run_hook 0 (se_events env))
      \<and> (case u_completed_videos lst of None \<Rightarrow> True | Some x \<Rightarrow> x \<le> 1)"
    by (auto simp: download_single_video_def first_def Let_def error_update_def no_args_def
        split: option.splits outcome.splits bool.splits)
  then obtain mid lst where d: "download_single_video cfg nfkd env = first # mid @ [lst]"
    and m: "mid = [] \<or> mid = run_hook 0 (se_events env)"
    and l: "case u_completed_videos lst of None \<Rightarrow> True | Some x \<Rightarrow> x \<le> 1"
    by blast
  from m hook have "list_all (\<lambda>u. u_status u = None) mid"
    "list_all (\<lambda>u. case u_completed_videos u of None \<Rightarrow> True | Some x \<Rightarrow> x \<le> 1) mid"
    by auto
  with d l show ?thesis by (auto simp: first_def no_args_def)
qed

lemma download_playlist_shape:
  "\<exists>first mid lst. fst (download_playlist cfg nfkd env video_ids) = first # mid @ [lst]
     \<and> u_status first = Some PROCESSING
     \<and> list_all (\<lambda>u. u_status u = None) mid
     \<and> list_all (\<lambda>u. case u_completed_videos u of None \<Rightarrow> True
                      | Some x \<Rightarrow> x \<le> int (length video_ids))
         (fst (download_playlist cfg nfkd env video_ids))"
proof -
  obtain c ups urls where loop:
    "playlist_loop cfg nfkd env (int (length video_ids)) 0 0 video_ids = (c, ups, urls)"
    by (cases "playlist_loop cfg nfkd env (int (length video_ids)) 0 0 video_ids")
  from playlist_loop_updates [OF loop] have u: "list_all (\<lambda>u. u_status u = None) ups"
    "list_all (\<lambda>u. case u_completed_videos u of None \<Rightarrow> True
        | Some x \<Rightarrow> x \<le> int (length video_ids)) ups"
    by (auto simp: list_all_iff split: option.splits)
  with loop show ?thesis
    by (auto simp: download_playlist_def Let_def no_args_def)
qed


lemma lifecycle_from_shape:
  assumes t0: "reg task_id = Some t0" "t_total_videos t0 = n" "t_completed_videos t0 \<le> n"
    and shape: "ups = first # mid @ [lst]" "u_status first = Some PROCESSING"
      "list_all (\<lambda>u. u_status u = None) mid"
    and bound: "list_all (\<lambda>u. case u_completed_videos u of None \<Rightarrow> True | Some x \<Rightarrow> x \<le> n) ups"
  shows "(\<forall>k\<le>length ups.
            \<exists>t. run_updates reg task_id (take k ups) task_id = Some t
              \<and> t_total_videos t = n \<and> t_completed_videos t \<le> t_total_videos t)
       \<and> (\<forall>k<length ups.
            u_status (ups ! k) = Some COMPLETED \<or> u_status (ups ! k) = Some FAILED
            \<longrightarrow> Suc k = length ups)
       \<and> (\<forall>i j. i < j \<and> j < length ups
            \<and> (u_status (ups ! i) = Some COMPLETED \<or> u_status (ups ! i) = Some FAILED)
            \<longrightarrow> u_status (ups ! j) = None)"
proof -
  have a: "\<exists>t. run_updates reg task_id (take k ups) task_id = Some t
      \<and> t_total_videos t = n \<and> t_completed_videos t \<le> t_total_videos t" for k
  proof -
    have "list_all (\<lambda>u. case u_completed_videos u of None \<Rightarrow> True | Some x \<Rightarrow> x \<le> n) (take k ups)"
      using bound by (rule list_all_take)
    from run_updates_bound [where tasks = reg and task_id = task_id, OF t0(1) t0(3) this] t0(2)
    show ?thesis by auto
  qed
  have b: "Suc k = length ups"
    if "k < length ups" "u_status (ups ! k) = Some COMPLETED \<or> u_status (ups ! k) = Some FAILED"
    for k
    using shape that by (rule terminal_last)
  have c: "u_status (ups ! j) = None"
    if "i < j" "j < length ups"
      "u_status (ups ! i) = Some COMPLETED \<or> u_status (ups ! i) = Some FAILED" for i j
  proof -
    from that have "i < length ups" by simp
    from b [OF this that(3)] that(1,2) show ?thesis by simp
  qed
  from a b c show ?thesis by blast
qed

lemma download_video_Inr:
  assumes "download_video tasks new_id request = Inr (response, reg, job)"
  shows "job = DownloadSingleVideo (dr_url request) new_id
    \<and> reg = snd (create_task tasks new_id 1) \<and> response = get_task reg new_id"
proof (cases "is_valid_youtube_url (dr_url request)")
  case True
  with assms show ?thesis by (auto simp: download_video_def create_task_def)
next
  case False
  with assms show ?thesis by (simp add: download_video_def)
qed

lemma download_playlist_route_Inr:
  assumes "download_playlist_route tasks new_id request = Inr (response, reg, job)"
  shows "job = DownloadPlaylist (pr_video_ids request) new_id
    \<and> reg = snd (create_task tasks new_id (int (length (pr_video_ids request))))
    \<and> response = get_task reg new_id"
proof (cases "pr_video_ids request = []")
  case True
  with assms show ?thesis by (simp add: download_playlist_route_def)
next
  case False
  with assms show ?thesis by (auto simp: download_playlist_route_def create_task_def)
qed

lemma created_task:
  "snd (create_task tasks new_id n) new_id =
     Some \<lparr>t_status = PENDING, t_progress = 0, t_message = py ''Task created'',
           t_total_videos = n, t_completed_videos = 0, t_file_paths = []\<rparr>"
  by (simp add: create_task_def)

text \<open>
  Claim C1. A task created by \<^verbatim>\<open>POST /api/download\<close> (total 1) or by
  \<^verbatim>\<open>POST /api/download-playlist\<close> (total the number of ids), under the updates that the
  scheduled workflow makes on it: after every prefix of the updates the task is in the
  registry with the total it was created with and a completed count that is at most the
  total; an update that sets the status to \<^verbatim>\<open>completed\<close> or \<^verbatim>\<open>failed\<close> is the last
  update of the workflow, so no update after it carries a status.
\<close>

theorem task_lifecycle:
  assumes "download_video tasks new_id request = Inr (response, tasks1, job)
         \<or> download_playlist_route tasks new_id playlist_request = Inr (response, tasks1, job)"
  shows "(\<forall>k\<le>length (task_updates cfg nfkd en job).
            \<exists>t. run_updates tasks1 (task_of job) (take k (task_updates cfg nfkd en job)) (task_of job)
                  = Some t
              \<and> t_total_videos t = r_total_videos response
              \<and> t_completed_videos t \<le> t_total_videos t)
       \<and> (\<forall>k<length (task_updates cfg nfkd en job).
            u_status (task_updates cfg nfkd en job ! k) = Some COMPLETED
            \<or> u_status (task_updates cfg nfkd en job ! k) = Some FAILED
            \<longrightarrow> Suc k = length (task_updates cfg nfkd en job))
       \<and> (\<forall>i j. i < j \<and> j < length (task_updates cfg nfkd en job)
            \<and> (u_status (task_updates cfg nfkd en job ! i) = Some COMPLETED
               \<or> u_status (task_updates cfg nfkd en job ! i) = Some FAILED)
            \<longrightarrow> u_status (task_updates cfg nfkd en job ! j) = None)"
  using assms
proof
  assume "download_video tasks new_id request = Inr (response, tasks1, job)"
  from download_video_Inr [OF this]
  have job: "job = DownloadSingleVideo (dr_url request) new_id"
    and t1: "tasks1 = snd (create_task tasks new_id 1)"
    and r: "response = get_task tasks1 new_id"
    by simp_all
  define t0 where "t0 = \<lparr>t_status = PENDING, t_progress = 0, t_message = py ''Task created'',
      t_total_videos = 1, t_completed_videos = 0, t_file_paths = []\<rparr>"
  have t0: "tasks1 new_id = Some t0" unfolding t1 t0_def by (rule created_task)
  then have rt: "r_total_videos response = 1" by (simp add: r get_task_def t0_def)
  have tu: "task_updates cfg nfkd en job = download_single_video cfg nfkd (en_single en)"
    and tk: "task_of job = new_id"
    by (simp_all add: job)
  from download_single_video_shape [of cfg nfkd "en_single en"] obtain first mid lst where
    sh: "download_single_video cfg nfkd (en_single en) = first # mid @ [lst]"
      "u_status first = Some PROCESSING" "list_all (\<lambda>u. u_status u = None) mid"
    and bd: "list_all (\<lambda>u. case u_completed_videos u of None \<Rightarrow> True | Some x \<Rightarrow> x \<le> 1)
      (download_single_video cfg nfkd (en_single en))"
    by blast
  have "t_total_videos t0 = 1" "t_completed_videos t0 \<le> 1" by (simp_all add: t0_def)
  from lifecycle_from_shape [where reg = tasks1 and task_id = new_id, OF t0 this sh bd]
  show ?thesis unfolding tu tk rt .
next
  assume "download_playlist_route tasks new_id playlist_request = Inr (response, tasks1, job)"
  from download_playlist_route_Inr [OF this]
  have job: "job = DownloadPlaylist (pr_video_ids playlist_request) new_id"
    and t1: "tasks1 = snd (create_task tasks new_id (int (length (pr_video_ids playlist_request))))"
    and r: "response = get_task tasks1 new_id"
    by simp_all
  define n where "n = int (length (pr_video_ids playlist_request))"
  define t0 where "t0 = \<lparr>t_status = PENDING, t_progress = 0, t_message = py ''Task created'',
      t_total_videos = n, t_completed_videos = 0, t_file_paths = []\<rparr>"
  have t0: "tasks1 new_id = Some t0" unfolding t1 t0_def n_def by (rule created_task)
  then have rt: "r_total_videos response = n" by (simp add: r get_task_def t0_def)
  have tu: "task_updates cfg nfkd en job
      = fst (download_playlist cfg nfkd (en_items en) (pr_video_ids playlist_request))"
    and tk: "task_of job = new_id"
    by (simp_all add: job)
  from download_playlist_shape [of cfg nfkd "en_items en" "pr_video_ids playlist_request"]
  obtain first mid lst where
    sh: "fst (download_playlist cfg nfkd (en_items en) (pr_video_ids playlist_request))
        = first # mid @ [lst]"
      "u_status first = Some PROCESSING" "list_all (\<lambda>u. u_status u = None) mid"
    and bd: "list_all (\<lambda>u. case u_completed_videos u of None \<Rightarrow> True | Some x \<Rightarrow> x \<le> n)
      (fst (download_playlist cfg nfkd (en_items en) (pr_video_ids playlist_request)))"
    unfolding n_def by blast
  have "t_total_videos t0 = n" "t_completed_videos t0 \<le> n" by (simp_all add: t0_def n_def)
  from lifecycle_from_shape [where reg = tasks1 and task_id = new_id, OF t0 this sh bd]
  show ?thesis unfolding tu tk rt .
qed

theorem task_lifecycle_witness:
  "download_video Map.empty (py ''t1'')
      \<lparr>dr_url = py ''https://youtu.be/abc123'', dr_is_playlist = False\<rparr>
     = Inr (get_task (snd (create_task Map.empty (py ''t1'') 1)) (py ''t1''),
            snd (create_task Map.empty (py ''t1'') 1),
            DownloadSingleVideo (py ''https://youtu.be/abc123'') (py ''t1''))
   \<and> map u_status
        (task_updates settings nfkd_sample sample_engine
           (DownloadSingleVideo (py ''https://youtu.be/abc123'') (py ''t1'')))
     = [Some PROCESSING, None, None, Some COMPLETED]
   \<and> map_option t_completed_videos
        (run_updates (snd (create_task Map.empty (py ''t1'') 1)) (py ''t1'')
           (task_updates settings nfkd_sample sample_engine
              (DownloadSingleVideo (py ''https://youtu.be/abc123'') (py ''t1''))) (py ''t1''))
     = Some 1"
proof -
  have route: "download_video Map.empty (py ''t1'')
      \<lparr>dr_url = py ''https://youtu.be/abc123'', dr_is_playlist = False\<rparr>
     = Inr (get_task (snd (create_task Map.empty (py ''t1'') 1)) (py ''t1''),
            snd (create_task Map.empty (py ''t1'') 1),
            DownloadSingleVideo (py ''https://youtu.be/abc123'') (py ''t1''))"
    by (simp add: download_video_def valid_a create_task_def)
  have ups: "map u_status
        (task_updates settings nfkd_sample sample_engine
           (DownloadSingleVideo (py ''https://youtu.be/abc123'') (py ''t1'')))
     = [Some PROCESSING, None, None, Some COMPLETED]"
    by (simp add: download_single_video_def sample_engine_def no_args_def)
  have fin: "map_option t_completed_videos
        (run_updates (snd (create_task Map.empty (py ''t1'') 1)) (py ''t1'')
           (task_updates settings nfkd_sample sample_engine
              (DownloadSingleVideo (py ''https://youtu.be/abc123'') (py ''t1''))) (py ''t1''))
     = Some 1"
    by (simp add: download_single_video_def sample_engine_def no_args_def create_task_def
        update_task_def py_def)
  from task_lifecycle [where cfg = settings and nfkd = nfkd_sample and en = sample_engine,
      OF disjI1 [OF route]] route ups fin
  show ?thesis by blast
qed

end
